theory Spec2Isabelle
  imports Complex_Main "HOL-Library.List_Lexorder" "HOL-Library.Char_ord"
begin

section \<open>Weather dashboard: the forecast summarizer and the search orchestrator\<close>

text \<open>
  A shallow embedding of \<^verbatim>\<open>src/App.tsx\<close>: \<^verbatim>\<open>pickDaily\<close> (the daily
  summary of a 3-hour forecast feed), \<^verbatim>\<open>saveRecent\<close>, \<^verbatim>\<open>runSearch\<close> and
  the initializer of the \<^verbatim>\<open>recent\<close> state.

  JavaScript strings are modelled as \<^typ>\<open>string\<close>: a list of code units, restricted to
  the code units below 256. Exceptions are values: a function that can throw returns
  \<open>exn + 'a\<close>, with \<open>Inl\<close> the thrown error. The built-in functions that the code
  calls (\<^verbatim>\<open>trim\<close>, \<^verbatim>\<open>split\<close>, \<^verbatim>\<open>Number\<close>, \<^verbatim>\<open>toLowerCase\<close>,
  \<^verbatim>\<open>JSON.stringify\<close>, \<^verbatim>\<open>JSON.parse\<close>) are modelled on the arguments that the
  code can pass them.
\<close>

subsection \<open>Exceptions and numbers\<close>

text \<open>
  A thrown value with its \<^verbatim>\<open>message\<close>. \<open>Error\<close> is \<^verbatim>\<open>new Error(msg)\<close>;
  \<open>TypeError\<close> and \<open>SyntaxError\<close> are raised by the engine, and their message texts
  (here: V8's) are engine specific.
\<close>

datatype exn = Error (message: string) | TypeError (message: string) | SyntaxError (message: string)

text \<open>
  The numbers that \<^verbatim>\<open>pickDaily\<close> computes with: the hour is \<^verbatim>\<open>NaN\<close> or a finite
  number, \<^verbatim>\<open>bestDiff\<close> starts as \<^verbatim>\<open>Infinity\<close>. The finite values that occur are
  exact in a double (at most two decimal digits), so a rational stands for them.
\<close>

datatype number = NaN | Infinity | Finite rat

text \<open>\<^verbatim>\<open>a < b\<close>: false as soon as one side is \<^verbatim>\<open>NaN\<close>.\<close>

fun js_less :: "number \<Rightarrow> number \<Rightarrow> bool" where
  "js_less (Finite a) (Finite b) = (a < b)"
| "js_less (Finite a) Infinity = True"
| "js_less _ _ = False"

text \<open>\<^verbatim>\<open>Math.abs(12 - hour)\<close>.\<close>

fun abs_12_minus :: "number \<Rightarrow> number" where
  "abs_12_minus (Finite h) = Finite \<bar>12 - h\<bar>"
| "abs_12_minus Infinity = Infinity"
| "abs_12_minus NaN = NaN"

subsection \<open>String primitives\<close>

text \<open>
  White space and line terminators of ECMAScript among the code units below 256:
  TAB, LF, VT, FF, CR, SP and NBSP.
\<close>

definition is_js_space :: "char \<Rightarrow> bool" where
  "is_js_space c = (of_char c \<in> {9, 10, 11, 12, 13, 32, 160 :: nat})"

text \<open>\<^verbatim>\<open>s.trim()\<close>.\<close>

definition trim :: "string \<Rightarrow> string" where
  "trim s = rev (dropWhile is_js_space (rev (dropWhile is_js_space s)))"

text \<open>\<^verbatim>\<open>s.split(sep)\<close> for a separator of one code unit: never the empty array.\<close>

fun split :: "char \<Rightarrow> string \<Rightarrow> string list" where
  "split sep [] = [Nil]"
| "split sep (c # cs) =
     (if c = sep then [] # split sep cs
      else (case split sep cs of
              p # ps \<Rightarrow> (c # p) # ps
            | [] \<Rightarrow> [c # Nil]))"

text \<open>\<^verbatim>\<open>xs[i]\<close>: \<^verbatim>\<open>undefined\<close> (here \<open>None\<close>) out of range.\<close>

fun index :: "'a list \<Rightarrow> nat \<Rightarrow> 'a option" where
  "index [] i = None"
| "index (x # xs) 0 = Some x"
| "index (x # xs) (Suc i) = index xs i"

definition digit :: "char \<Rightarrow> nat option" where
  "digit c = (let n = of_char c :: nat in if 48 \<le> n \<and> n \<le> 57 then Some (n - 48) else None)"

text \<open>
  \<^verbatim>\<open>Number(s)\<close> for a string of at most two code units, which is all that
  \<^verbatim>\<open>slice(0, 2)\<close> returns. After trimming white space, the string numeric literals of
  that length are: the empty string (0), one or two decimal digits, \<^verbatim>\<open>d.\<close>,
  \<^verbatim>\<open>.d\<close>, \<^verbatim>\<open>+d\<close> and \<^verbatim>\<open>-d\<close>; everything else is \<^verbatim>\<open>NaN\<close>.
\<close>

definition Number :: "string \<Rightarrow> number" where
  "Number s =
     (case trim s of
        [] \<Rightarrow> Finite 0
      | [a] \<Rightarrow> (case digit a of Some x \<Rightarrow> Finite (of_nat x) | None \<Rightarrow> NaN)
      | [a, b] \<Rightarrow>
          (case (digit a, digit b) of
             (Some x, Some y) \<Rightarrow> Finite (of_nat (10 * x + y))
           | (Some x, None) \<Rightarrow> if b = CHR ''.'' then Finite (of_nat x) else NaN
           | (None, Some y) \<Rightarrow>
               if a = CHR ''.'' then Finite (of_nat y / 10)
               else if a = CHR ''+'' then Finite (of_nat y)
               else if a = CHR ''-'' then Finite (- of_nat y)
               else NaN
           | (None, None) \<Rightarrow> NaN)
      | _ \<Rightarrow> NaN)"

subsection \<open>The forecast feed\<close>

text \<open>
  \<^verbatim>\<open>interface ForecastItem\<close>. \<^verbatim>\<open>pickDaily\<close> reads \<^verbatim>\<open>dt_txt\<close> only; the fields
  \<^verbatim>\<open>main\<close>, \<^verbatim>\<open>weather\<close> and \<^verbatim>\<open>wind\<close> are carried along in \<open>payload\<close>.
\<close>

record 'p ForecastItem =
  dt :: int
  dt_txt :: string
  payload :: 'p

text \<open>\<^verbatim>\<open>item.dt_txt.split(' ')[0]\<close>: element 0 of a split always exists.\<close>

definition day_of :: "'p ForecastItem \<Rightarrow> string" where
  "day_of item = (case split CHR '' '' (dt_txt item) of p # ps \<Rightarrow> p | [] \<Rightarrow> [])"

text \<open>
  \<^verbatim>\<open>Number(it.dt_txt.split(' ')[1].slice(0, 2))\<close>: when \<^verbatim>\<open>dt_txt\<close> has no space,
  element 1 is \<^verbatim>\<open>undefined\<close> and \<^verbatim>\<open>.slice\<close> throws a TypeError.
\<close>

definition hour_of :: "'p ForecastItem \<Rightarrow> exn + number" where
  "hour_of it =
     (case index (split CHR '' '' (dt_txt it)) 1 of
        None \<Rightarrow> Inl (TypeError ''Cannot read properties of undefined (reading 'slice')'')
      | Some t \<Rightarrow> Inr (Number (take 2 t)))"

text \<open>
  \<^verbatim>\<open>groups\<close> is an object literal \<^verbatim>\<open>{}\<close>, so it inherits the properties of
  \<^verbatim>\<open>Object.prototype\<close>. For these keys \<^verbatim>\<open>groups[day]\<close> is not nullish,
  \<^verbatim>\<open>??=\<close> assigns nothing, and \<^verbatim>\<open>groups[day].push\<close> is not a function.
\<close>

definition Object_prototype_keys :: "string list" where
  "Object_prototype_keys =
     [''constructor'', ''__defineGetter__'', ''__defineSetter__'', ''hasOwnProperty'',
      ''__lookupGetter__'', ''__lookupSetter__'', ''isPrototypeOf'', ''propertyIsEnumerable'',
      ''toString'', ''valueOf'', ''__proto__'', ''toLocaleString'']"

text \<open>
  The own properties of \<^verbatim>\<open>groups\<close>, in insertion order.
  \<^verbatim>\<open>groups[day] ??= []; groups[day].push(item)\<close> for a key that is not inherited:
\<close>

type_synonym 'p groups = "(string \<times> 'p ForecastItem list) list"

fun push_item :: "'p groups \<Rightarrow> string \<Rightarrow> 'p ForecastItem \<Rightarrow> 'p groups" where
  "push_item [] day item = [(day, [item])]"
| "push_item ((k, items) # groups) day item =
     (if k = day then (k, items @ [item]) # groups
      else (k, items) # push_item groups day item)"

text \<open>The first loop of \<^verbatim>\<open>pickDaily\<close>.\<close>

fun group_loop :: "'p groups \<Rightarrow> 'p ForecastItem list \<Rightarrow> exn + 'p groups" where
  "group_loop groups [] = Inr groups"
| "group_loop groups (item # list) =
     (let day = day_of item in
      if day \<in> set Object_prototype_keys
      then Inl (TypeError ''groups[day].push is not a function'')
      else group_loop (push_item groups day item) list)"

text \<open>The inner loop: \<^verbatim>\<open>for (const it of items)\<close>, with \<^verbatim>\<open>best\<close> and \<^verbatim>\<open>bestDiff\<close>.\<close>

fun best_loop :: "'p ForecastItem \<Rightarrow> number \<Rightarrow> 'p ForecastItem list \<Rightarrow> exn + 'p ForecastItem" where
  "best_loop best bestDiff [] = Inr best"
| "best_loop best bestDiff (it # items) =
     (case hour_of it of
        Inl e \<Rightarrow> Inl e
      | Inr hour \<Rightarrow>
          (let diff = abs_12_minus hour in
           if js_less diff bestDiff then best_loop it diff items
           else best_loop best bestDiff items))"

text \<open>
  The outer loop: \<^verbatim>\<open>for (const day of days)\<close>. Every key of \<^verbatim>\<open>groups\<close> was created
  together with its first item, so \<^verbatim>\<open>items[0]\<close> exists (lemma \<open>nonempty_group\<close>
  below); the last case is never reached.
\<close>

fun day_loop :: "'p groups \<Rightarrow> string list \<Rightarrow> 'p ForecastItem list \<Rightarrow> exn + 'p ForecastItem list" where
  "day_loop groups [] results = Inr results"
| "day_loop groups (day # days) results =
     (case map_of groups day of
        Some (it0 # items) \<Rightarrow>
          (case best_loop it0 Infinity (it0 # items) of
             Inl e \<Rightarrow> Inl e
           | Inr best \<Rightarrow> day_loop groups days (results @ [best]))
      | _ \<Rightarrow> day_loop groups days results)"

text \<open>
  \<^verbatim>\<open>results\<close> before the final slice. \<^verbatim>\<open>Object.keys(groups).sort()\<close> sorts the
  keys as strings, by code units; the keys are distinct, so the order of
  \<^verbatim>\<open>Object.keys\<close> does not show in the result.
\<close>

definition pickDaily_results :: "'p ForecastItem list \<Rightarrow> exn + 'p ForecastItem list" where
  "pickDaily_results list =
     (case group_loop [] list of
        Inl e \<Rightarrow> Inl e
      | Inr groups \<Rightarrow> day_loop groups (sort (map fst groups)) [])"

definition pickDaily :: "'p ForecastItem list \<Rightarrow> exn + 'p ForecastItem list" where
  "pickDaily list =
     (case pickDaily_results list of
        Inl e \<Rightarrow> Inl e
      | Inr results \<Rightarrow> Inr (take 5 results))"

subsection \<open>Notions for the properties of the summary\<close>

text \<open>
  The date portion of a formatted local-time string, as the specification has it: the text
  before the first space. It is defined on the text alone, apart from \<open>day_of\<close>.
\<close>

definition calendar_date :: "string \<Rightarrow> string" where
  "calendar_date txt = takeWhile (\<lambda>c. c \<noteq> CHR '' '') txt"

text \<open>The calendar dates of a feed, sorted, and the points of one date in the order of the feed.\<close>

definition days_of :: "'p ForecastItem list \<Rightarrow> string list" where
  "days_of feed = sort (remdups (map day_of feed))"

definition group_of :: "'p ForecastItem list \<Rightarrow> string \<Rightarrow> 'p ForecastItem list" where
  "group_of feed day = filter (\<lambda>item. day_of item = day) feed"

text \<open>
  The \<^verbatim>\<open>diff\<close> that the inner loop computes for a point: \<^verbatim>\<open>Math.abs(12 - hour)\<close>,
  which is \<^verbatim>\<open>NaN\<close> when the hour is.
\<close>

definition noon_distance :: "'p ForecastItem \<Rightarrow> number" where
  "noon_distance it = (case hour_of it of Inl e \<Rightarrow> NaN | Inr hour \<Rightarrow> abs_12_minus hour)"

text \<open>
  The points on which \<^verbatim>\<open>pickDaily\<close> does not throw: \<^verbatim>\<open>dt_txt\<close> has a part after
  its first space, and its date is not the name of a property of \<^verbatim>\<open>Object.prototype\<close>.
\<close>

definition has_time :: "'p ForecastItem \<Rightarrow> bool" where
  "has_time it = (index (split CHR '' '' (dt_txt it)) 1 \<noteq> None)"

definition own_key :: "'p ForecastItem \<Rightarrow> bool" where
  "own_key it = (day_of it \<notin> set Object_prototype_keys)"

definition well_formed :: "'p ForecastItem \<Rightarrow> bool" where
  "well_formed it = (own_key it \<and> has_time it)"

text \<open>\<^verbatim>\<open>groups[day]\<close> for an own key, and the empty array for any other.\<close>

definition lookup :: "'p groups \<Rightarrow> string \<Rightarrow> 'p ForecastItem list" where
  "lookup groups day = (case map_of groups day of None \<Rightarrow> [] | Some items \<Rightarrow> items)"

text \<open>What the outer loop pushes for one day: the result of the inner loop on the day's group.\<close>

definition selects :: "'p ForecastItem list \<Rightarrow> 'p ForecastItem \<Rightarrow> bool" where
  "selects items r = (case items of [] \<Rightarrow> False | it0 # _ \<Rightarrow> best_loop it0 Infinity items = Inr r)"

text \<open>
  The selection as the specification words it: point \<open>i\<close> of a group is closest to noon,
  and the first such point. Whenever a point \<open>j\<close> has a numeric hour, so has point \<open>i\<close>,
  at a distance from 12 that is not larger, and smaller when \<open>j\<close> comes earlier; when no
  point has a numeric hour, \<open>i\<close> is the first point.
\<close>

definition closest_to_noon_first :: "'p ForecastItem list \<Rightarrow> nat \<Rightarrow> bool" where
  "closest_to_noon_first items i =
     (i < length items \<and>
      (\<forall>j < length items. \<forall>y. noon_distance (items ! j) = Finite y \<longrightarrow>
         (\<exists>x. noon_distance (items ! i) = Finite x \<and> x \<le> y \<and> (j < i \<longrightarrow> x < y))) \<and>
      ((\<forall>it \<in> set items. \<forall>y. noon_distance it \<noteq> Finite y) \<longrightarrow> i = 0))"

text \<open>
  The calendar date that a zero-padded \<^verbatim>\<open>YYYY-MM-DD\<close> text stands for, as year, month
  and day, and the order of calendar dates.
\<close>

definition two_digits :: "char \<Rightarrow> char \<Rightarrow> nat option" where
  "two_digits a b = (case (digit a, digit b) of (Some x, Some y) \<Rightarrow> Some (x * 10 + y) | _ \<Rightarrow> None)"

fun ymd :: "string \<Rightarrow> (nat \<times> nat \<times> nat) option" where
  "ymd [y1, y2, y3, y4, h1, m1, m2, h2, d1, d2] =
     (case (two_digits y1 y2, two_digits y3 y4, two_digits m1 m2, two_digits d1 d2) of
        (Some c, Some y, Some m, Some d) \<Rightarrow>
          if h1 = CHR ''-'' \<and> h2 = CHR ''-'' then Some (c * 100 + y, m, d) else None
      | _ \<Rightarrow> None)"
| "ymd _ = None"

definition date_before :: "nat \<times> nat \<times> nat \<Rightarrow> nat \<times> nat \<times> nat \<Rightarrow> bool" where
  "date_before x y =
     (case (x, y) of
        ((y1, m1, d1), (y2, m2, d2)) \<Rightarrow> y1 < y2 \<or> (y1 = y2 \<and> (m1 < m2 \<or> (m1 = m2 \<and> d1 < d2))))"

subsection \<open>The recent-cities list\<close>

text \<open>
  \<^verbatim>\<open>c.toLowerCase()\<close> on code units below 256: the letters A to Z and the upper-case
  letters of Latin-1 (0xC0 to 0xDE without the multiplication sign 0xD7) move up by 32;
  every other code unit stays.
\<close>

definition lower_unit :: "char \<Rightarrow> char" where
  "lower_unit c =
     (let n = of_char c :: nat in
      if (65 \<le> n \<and> n \<le> 90) \<or> (192 \<le> n \<and> n \<le> 222 \<and> n \<noteq> 215) then char_of (n + 32) else c)"

definition toLowerCase :: "string \<Rightarrow> string" where
  "toLowerCase s = map lower_unit s"

text \<open>
  The list that \<^verbatim>\<open>saveRecent\<close> computes:
  \<^verbatim>\<open>[name, ...recent.filter(c => c.toLowerCase() !== name.toLowerCase())].slice(0, 6)\<close>.
\<close>

definition next_recent :: "string \<Rightarrow> string list \<Rightarrow> string list" where
  "next_recent name recent =
     take 6 (name # filter (\<lambda>c. toLowerCase c \<noteq> toLowerCase name) recent)"

definition RECENT_KEY :: string where
  "RECENT_KEY = ''wd_recent_cities''"

subsection \<open>JSON text\<close>

text \<open>
  \<^verbatim>\<open>JSON.stringify\<close> of an array of strings. Inside a string the quote, the backslash
  and the control characters are escaped; every other code unit is written as it is.
\<close>

definition hex_char :: "nat \<Rightarrow> char" where
  "hex_char n = ''0123456789abcdef'' ! (n mod 16)"

definition quote_unit :: "char \<Rightarrow> string" where
  "quote_unit c =
     (let n = of_char c :: nat in
      if n = 34 then [CHR 0x5C, CHR 0x22]
      else if n = 92 then [CHR 0x5C, CHR 0x5C]
      else if n = 8 then [CHR 0x5C, CHR ''b'']
      else if n = 12 then [CHR 0x5C, CHR ''f'']
      else if n = 10 then [CHR 0x5C, CHR ''n'']
      else if n = 13 then [CHR 0x5C, CHR ''r'']
      else if n = 9 then [CHR 0x5C, CHR ''t'']
      else if n < 32 then [CHR 0x5C, CHR ''u'', CHR ''0'', CHR ''0'', hex_char (n div 16), hex_char n]
      else [c])"

definition quote :: "string \<Rightarrow> string" where
  "quote s = CHR 0x22 # concat (map quote_unit s) @ [CHR 0x22]"

fun join :: "string list \<Rightarrow> string" where
  "join [] = []"
| "join [x] = x"
| "join (x # y # ys) = x @ CHR '','' # join (y # ys)"

definition JSON_stringify :: "string list \<Rightarrow> string" where
  "JSON_stringify xs = CHR ''['' # join (map quote xs) @ [CHR '']'']"

text \<open>
  The values of \<^verbatim>\<open>JSON.parse\<close>, as far as the model tells them apart. A string is
  its list of code units, which a \<^verbatim>\<open>\u\<close> escape can take beyond 255, and an array
  is the list of its elements. \<open>JNumber\<close> stands for any number and \<open>JObject\<close> for any
  object: which double a number literal denotes, and which own properties an object ends
  up with (a repeated key keeps its last value, index-like keys come first), is left out,
  so the model says of such a value only of which kind it is.
\<close>

datatype json =
    JNull
  | JBool bool
  | JNumber
  | JString "nat list"
  | JArray "json list"
  | JObject

datatype token =
    TLBrace | TRBrace | TLBracket | TRBracket | TColon | TComma
  | TString "nat list" | TNumber string | TTrue | TFalse | TNull

definition is_digit :: "char \<Rightarrow> bool" where
  "is_digit c = (digit c \<noteq> None)"

definition hex_digit :: "char \<Rightarrow> nat option" where
  "hex_digit c =
     (let n = of_char c :: nat in
      if 48 \<le> n \<and> n \<le> 57 then Some (n - 48)
      else if 97 \<le> n \<and> n \<le> 102 then Some (n - 87)
      else if 65 \<le> n \<and> n \<le> 70 then Some (n - 55)
      else None)"

text \<open>The code unit of a one-letter escape.\<close>

definition escape_unit :: "char \<Rightarrow> nat option" where
  "escape_unit c =
     (if c = CHR 0x22 then Some 34
      else if c = CHR 0x5C then Some 92
      else if c = CHR ''/'' then Some 47
      else if c = CHR ''b'' then Some 8
      else if c = CHR ''f'' then Some 12
      else if c = CHR ''n'' then Some 10
      else if c = CHR ''r'' then Some 13
      else if c = CHR ''t'' then Some 9
      else None)"

text \<open>
  A string literal after its opening quote: the code units up to the closing quote, and
  the text after it. A control character, a bad escape and a missing closing quote are
  syntax errors (\<open>None\<close>).
\<close>

fun lex_string :: "string \<Rightarrow> (nat list \<times> string) option" where
  "lex_string [] = None"
| "lex_string (c # cs) =
     (if c = CHR 0x22 then Some ([], cs)
      else if c = CHR 0x5C then
        (case cs of
           [] \<Rightarrow> None
         | e # cs1 \<Rightarrow>
             if e = CHR ''u'' then
               (case cs1 of
                  h1 # h2 # h3 # h4 # cs2 \<Rightarrow>
                    (case (hex_digit h1, hex_digit h2, hex_digit h3, hex_digit h4) of
                       (Some a, Some b, Some c, Some d) \<Rightarrow>
                         (case lex_string cs2 of
                            None \<Rightarrow> None
                          | Some (us, r) \<Rightarrow> Some ((((a * 16 + b) * 16 + c) * 16 + d) # us, r))
                     | _ \<Rightarrow> None)
                | _ \<Rightarrow> None)
             else
               (case escape_unit e of
                  None \<Rightarrow> None
                | Some u \<Rightarrow>
                    (case lex_string cs1 of
                       None \<Rightarrow> None
                     | Some (us, r) \<Rightarrow> Some (u # us, r))))
      else if of_char c < (32 :: nat) then None
      else
        (case lex_string cs of
           None \<Rightarrow> None
         | Some (us, r) \<Rightarrow> Some (of_char c # us, r)))"

text \<open>
  A number literal: an optional minus, then \<^verbatim>\<open>0\<close> or a digit sequence without a
  leading zero, an optional fraction and an optional exponent, each with at least one digit.
\<close>

definition lex_digits :: "string \<Rightarrow> (string \<times> string) option" where
  "lex_digits s =
     (if takeWhile is_digit s = [] then None
      else Some (takeWhile is_digit s, dropWhile is_digit s))"

definition lex_int :: "string \<Rightarrow> (string \<times> string) option" where
  "lex_int s =
     (case s of
        [] \<Rightarrow> None
      | c # cs \<Rightarrow> if c = CHR ''0'' then Some ([c], cs) else lex_digits s)"

definition lex_frac :: "string \<Rightarrow> (string \<times> string) option" where
  "lex_frac s =
     (case s of
        c # cs \<Rightarrow>
          if c = CHR ''.'' then
            (case lex_digits cs of None \<Rightarrow> None | Some (ds, r) \<Rightarrow> Some (c # ds, r))
          else Some ([], s)
      | [] \<Rightarrow> Some ([], s))"

definition lex_sign :: "string \<Rightarrow> string \<times> string" where
  "lex_sign s =
     (case s of
        c # cs \<Rightarrow> if c = CHR ''+'' \<or> c = CHR ''-'' then ([c], cs) else ([], s)
      | [] \<Rightarrow> ([], s))"

definition lex_exp :: "string \<Rightarrow> (string \<times> string) option" where
  "lex_exp s =
     (case s of
        c # cs \<Rightarrow>
          if c = CHR ''e'' \<or> c = CHR ''E'' then
            (case lex_digits (snd (lex_sign cs)) of
               None \<Rightarrow> None
             | Some (ds, r) \<Rightarrow> Some (c # fst (lex_sign cs) @ ds, r))
          else Some ([], s)
      | [] \<Rightarrow> Some ([], s))"

definition lex_number :: "string \<Rightarrow> (string \<times> string) option" where
  "lex_number s =
     (let (minus, s0) = (case s of
                          c # cs \<Rightarrow> if c = CHR ''-'' then ([c], cs) else ([], s)
                        | [] \<Rightarrow> ([], s))
      in case lex_int s0 of
           None \<Rightarrow> None
         | Some (i, s1) \<Rightarrow>
             (case lex_frac s1 of
                None \<Rightarrow> None
              | Some (f, s2) \<Rightarrow>
                  (case lex_exp s2 of
                     None \<Rightarrow> None
                   | Some (e, s3) \<Rightarrow> Some (minus @ i @ f @ e, s3))))"

text \<open>The white space of JSON: TAB, LF, CR and SP.\<close>

definition is_json_space :: "char \<Rightarrow> bool" where
  "is_json_space c = (of_char c \<in> {9, 10, 13, 32 :: nat})"

text \<open>The tokens of a text; \<open>None\<close> when some part of it is no token.\<close>

function tokenize :: "string \<Rightarrow> token list option" where
  "tokenize [] = Some []"
| "tokenize (c # cs) =
     (if is_json_space c then tokenize cs
      else if c = CHR ''{'' then map_option (Cons TLBrace) (tokenize cs)
      else if c = CHR ''}'' then map_option (Cons TRBrace) (tokenize cs)
      else if c = CHR ''['' then map_option (Cons TLBracket) (tokenize cs)
      else if c = CHR '']'' then map_option (Cons TRBracket) (tokenize cs)
      else if c = CHR '':'' then map_option (Cons TColon) (tokenize cs)
      else if c = CHR '','' then map_option (Cons TComma) (tokenize cs)
      else if c = CHR 0x22 then
        (case lex_string cs of
           None \<Rightarrow> None
         | Some (us, r) \<Rightarrow> map_option (Cons (TString us)) (tokenize r))
      else if c = CHR ''-'' \<or> is_digit c then
        (case lex_number (c # cs) of
           None \<Rightarrow> None
         | Some (n, r) \<Rightarrow> map_option (Cons (TNumber n)) (tokenize r))
      else if take 4 (c # cs) = ''true'' then map_option (Cons TTrue) (tokenize (drop 3 cs))
      else if take 5 (c # cs) = ''false'' then map_option (Cons TFalse) (tokenize (drop 4 cs))
      else if take 4 (c # cs) = ''null'' then map_option (Cons TNull) (tokenize (drop 3 cs))
      else None)"
  by pat_completeness auto
termination
proof -
  have str: "\<And>s us r. lex_string s = Some (us, r) \<Longrightarrow> length r < length s"
  proof -
    fix s us r show "lex_string s = Some (us, r) \<Longrightarrow> length r < length s"
    proof (induction s arbitrary: us r rule: lex_string.induct)
      case 1 then show ?case by simp
    next
      case (2 c cs)
      then show ?case
        by (auto split: if_splits list.splits option.splits prod.splits) fastforce+
    qed
  qed
  have digits: "\<And>s ds r. lex_digits s = Some (ds, r) \<Longrightarrow> length r < length s"
  proof -
    fix s ds r assume "lex_digits s = Some (ds, r)"
    then have "takeWhile is_digit s \<noteq> []" and "r = dropWhile is_digit s"
      by (auto simp: lex_digits_def split: if_splits)
    moreover have "length (takeWhile is_digit s) + length (dropWhile is_digit s) = length s"
      by (metis length_append takeWhile_dropWhile_id)
    ultimately show "length r < length s" by (cases "takeWhile is_digit s") auto
  qed
  have int: "\<And>s ds r. lex_int s = Some (ds, r) \<Longrightarrow> length r < length s"
  proof -
    fix s ds r assume a: "lex_int s = Some (ds, r)"
    show "length r < length s"
    proof (cases s)
      case Nil with a show ?thesis by (simp add: lex_int_def)
    next
      case (Cons c cs)
      show ?thesis
      proof (cases "c = CHR ''0''")
        case True with a Cons show ?thesis by (auto simp: lex_int_def)
      next
        case False
        with a Cons have "lex_digits s = Some (ds, r)" by (simp add: lex_int_def)
        then show ?thesis by (rule digits)
      qed
    qed
  qed
  have frac: "\<And>s ds r. lex_frac s = Some (ds, r) \<Longrightarrow> length r \<le> length s"
    using digits by (fastforce simp: lex_frac_def split: list.splits if_splits option.splits)
  have sign: "\<And>s. length (snd (lex_sign s)) \<le> length s"
    by (auto simp: lex_sign_def split: list.splits)
  have exp: "\<And>s ds r. lex_exp s = Some (ds, r) \<Longrightarrow> length r \<le> length s"
  proof -
    fix s ds r assume a: "lex_exp s = Some (ds, r)"
    show "length r \<le> length s"
    proof (cases s)
      case Nil with a show ?thesis by (simp add: lex_exp_def)
    next
      case (Cons c cs)
      show ?thesis
      proof (cases "c = CHR ''e'' \<or> c = CHR ''E''")
        case False with a Cons show ?thesis by (auto simp: lex_exp_def)
      next
        case True
        with a Cons obtain ds' where "lex_digits (snd (lex_sign cs)) = Some (ds', r)"
          by (auto simp: lex_exp_def split: option.splits)
        from digits[OF this] sign[of cs] Cons show ?thesis by simp
      qed
    qed
  qed
  have num: "\<And>s n r. lex_number s = Some (n, r) \<Longrightarrow> length r < length s"
  proof -
    fix s n r assume a: "lex_number s = Some (n, r)"
    define s0 where "s0 = (case s of c # cs \<Rightarrow> if c = CHR ''-'' then cs else s | [] \<Rightarrow> s)"
    have s0: "length s0 \<le> length s" by (auto simp: s0_def split: list.splits)
    from a obtain i s1 f s2 e where "lex_int s0 = Some (i, s1)" "lex_frac s1 = Some (f, s2)"
      "lex_exp s2 = Some (e, r)"
      by (auto simp: lex_number_def s0_def split: list.splits if_splits option.splits prod.splits)
    from int[OF this(1)] frac[OF this(2)] exp[OF this(3)] s0 show "length r < length s" by simp
  qed
  show ?thesis
    apply (relation "measure length")
     apply simp_all
    subgoal for c cs x2 x y using str[of cs x y] by simp
    subgoal for c cs x2 x y using num[of "c # cs" x y] by simp
    done
qed

text \<open>
  The parser reads the tokens from left to right with a stack of the arrays and objects
  that are still open. \<open>InArray xs\<close> holds the elements read so far, last first;
  \<open>InObject waiting\<close> tells whether a key waits for its value.
\<close>

datatype frame = InArray "json list" | InObject bool

datatype expect = Value | ValueOrEnd | KeyOrEnd | Key | Colon | CommaOrEnd

datatype pstate = Expect expect "frame list" | Done json

text \<open>A value is complete: it is the whole text, or goes into the innermost open container.\<close>

fun complete :: "json \<Rightarrow> frame list \<Rightarrow> pstate option" where
  "complete v [] = Some (Done v)"
| "complete v (InArray xs # st) = Some (Expect CommaOrEnd (InArray (v # xs) # st))"
| "complete v (InObject True # st) = Some (Expect CommaOrEnd (InObject False # st))"
| "complete v (InObject False # st) = None"

fun close_array :: "frame list \<Rightarrow> pstate option" where
  "close_array (InArray xs # st) = complete (JArray (rev xs)) st"
| "close_array _ = None"

fun close_object :: "frame list \<Rightarrow> pstate option" where
  "close_object (InObject False # st) = complete JObject st"
| "close_object _ = None"

fun set_key :: "nat list \<Rightarrow> frame list \<Rightarrow> pstate option" where
  "set_key k (InObject False # st) = Some (Expect Colon (InObject True # st))"
| "set_key k _ = None"

fun value_token :: "token \<Rightarrow> frame list \<Rightarrow> pstate option" where
  "value_token TLBracket st = Some (Expect ValueOrEnd (InArray [] # st))"
| "value_token TLBrace st = Some (Expect KeyOrEnd (InObject False # st))"
| "value_token (TString us) st = complete (JString us) st"
| "value_token (TNumber n) st = complete JNumber st"
| "value_token TTrue st = complete (JBool True) st"
| "value_token TFalse st = complete (JBool False) st"
| "value_token TNull st = complete JNull st"
| "value_token _ st = None"

fun parse_step :: "pstate \<Rightarrow> token \<Rightarrow> pstate option" where
  "parse_step (Done v) t = None"
| "parse_step (Expect Value st) t = value_token t st"
| "parse_step (Expect ValueOrEnd st) t = (if t = TRBracket then close_array st else value_token t st)"
| "parse_step (Expect KeyOrEnd st) t =
     (case t of TString k \<Rightarrow> set_key k st | TRBrace \<Rightarrow> close_object st | _ \<Rightarrow> None)"
| "parse_step (Expect Key st) t = (case t of TString k \<Rightarrow> set_key k st | _ \<Rightarrow> None)"
| "parse_step (Expect Colon st) t = (if t = TColon then Some (Expect Value st) else None)"
| "parse_step (Expect CommaOrEnd st) t =
     (case (t, st) of
        (TComma, InArray xs # st') \<Rightarrow> Some (Expect Value st)
      | (TComma, InObject waiting # st') \<Rightarrow> Some (Expect Key st)
      | (TRBracket, _) \<Rightarrow> close_array st
      | (TRBrace, _) \<Rightarrow> close_object st
      | _ \<Rightarrow> None)"

fun parse_tokens :: "pstate \<Rightarrow> token list \<Rightarrow> pstate option" where
  "parse_tokens p [] = Some p"
| "parse_tokens p (t # ts) = (case parse_step p t of None \<Rightarrow> None | Some p' \<Rightarrow> parse_tokens p' ts)"

text \<open>\<^verbatim>\<open>JSON.parse(text)\<close>: \<open>None\<close> when it throws a SyntaxError.\<close>

definition JSON_parse :: "string \<Rightarrow> json option" where
  "JSON_parse text =
     (case tokenize text of
        None \<Rightarrow> None
      | Some ts \<Rightarrow> (case parse_tokens (Expect Value []) ts of Some (Done v) \<Rightarrow> Some v | _ \<Rightarrow> None))"

subsection \<open>The initial recent list\<close>

text \<open>
  The initializer of the \<^verbatim>\<open>recent\<close> state:
  \<^verbatim>\<open>try { return JSON.parse(localStorage.getItem(RECENT_KEY) || '[]') } catch { return [] }\<close>.
  \<^verbatim>\<open>getItem\<close> gives \<^verbatim>\<open>null\<close> for a key that is not stored; \<^verbatim>\<open>null\<close> and the
  empty string are falsy. The result is not checked against the declared type
  \<^verbatim>\<open>string[]\<close>, so it is a JSON value. Reading the storage is taken to succeed.
\<close>

definition loadRecent :: "(string \<rightharpoonup> string) \<Rightarrow> json" where
  "loadRecent localStorage =
     (let text = (case localStorage RECENT_KEY of
                    None \<Rightarrow> ''[]''
                  | Some saved \<Rightarrow> if saved = [] then ''[]'' else saved)
      in case JSON_parse text of
           None \<Rightarrow> JArray []
         | Some v \<Rightarrow> v)"

subsection \<open>The weather service\<close>

datatype Units = metric | imperial

text \<open>\<^verbatim>\<open>interface Geo\<close>. Coordinates are only passed on to the two weather requests.\<close>

record Geo =
  name :: string
  lat :: rat
  lon :: rat
  country :: string
  state :: "string option"

text \<open>\<^verbatim>\<open>interface ForecastRes\<close>; \<^verbatim>\<open>runSearch\<close> reads its \<^verbatim>\<open>list\<close> only.\<close>

record 'p ForecastRes =
  list :: "'p ForecastItem list"

text \<open>The requests that \<^verbatim>\<open>fetch\<close> sends, by what their URL is built from.\<close>

datatype request =
    GeoRequest string
  | WeatherRequest rat rat Units
  | ForecastRequest rat rat Units

text \<open>
  What a \<^verbatim>\<open>fetch\<close> comes to: the promise is rejected (no response), or there is a
  response with its \<^verbatim>\<open>ok\<close> flag and the outcome of \<^verbatim>\<open>res.json()\<close>, which is
  rejected when the body is not JSON. A body that parses is taken to have the declared
  shape, as the code takes it.
\<close>

datatype 'a fetched = Rejected exn | Response bool "exn + 'a"

text \<open>
  All that \<^verbatim>\<open>runSearch\<close> gets from outside: the configured key
  (\<^verbatim>\<open>import.meta.env.VITE_OPENWEATHER_API_KEY\<close>, \<open>None\<close> when not set), the outcome of
  each request, and which of the two weather promises is settled first.
\<close>

record ('w, 'p) world =
  KEY :: "string option"
  geo_fetch :: "string \<Rightarrow> Geo list fetched"
  weather_fetch :: "rat \<Rightarrow> rat \<Rightarrow> Units \<Rightarrow> 'w fetched"
  forecast_fetch :: "rat \<Rightarrow> rat \<Rightarrow> Units \<Rightarrow> 'p ForecastRes fetched"
  forecast_settles_first :: bool

text \<open>\<^verbatim>\<open>!KEY\<close> holds for \<^verbatim>\<open>undefined\<close> and for the empty string.\<close>

definition no_key :: "('w, 'p) world \<Rightarrow> bool" where
  "no_key w = (case KEY w of None \<Rightarrow> True | Some k \<Rightarrow> k = [])"

text \<open>
  The three API functions. Each returns what its promise settles to, together with the
  log of requests sent, which grows by one when \<^verbatim>\<open>fetch\<close> is called.
\<close>

definition geocode ::
  "('w, 'p) world \<Rightarrow> string \<Rightarrow> request list \<Rightarrow> (exn + Geo option) \<times> request list" where
  "geocode w cityName reqs =
     (if no_key w then (Inl (Error ''API key not configured''), reqs)
      else
        (case geo_fetch w cityName of
           Rejected e \<Rightarrow> Inl e
         | Response ok body \<Rightarrow>
             if \<not> ok then Inl (Error ''Geocoding failed'')
             else (case body of Inl e \<Rightarrow> Inl e | Inr data \<Rightarrow> Inr (index data 0)),
         reqs @ [GeoRequest cityName]))"

definition current ::
  "('w, 'p) world \<Rightarrow> rat \<Rightarrow> rat \<Rightarrow> Units \<Rightarrow> request list \<Rightarrow> (exn + 'w) \<times> request list" where
  "current w la lo un reqs =
     (if no_key w then (Inl (Error ''API key not configured''), reqs)
      else
        (case weather_fetch w la lo un of
           Rejected e \<Rightarrow> Inl e
         | Response ok body \<Rightarrow>
             if \<not> ok then Inl (Error ''Weather data failed to load'') else body,
         reqs @ [WeatherRequest la lo un]))"

definition forecast ::
  "('w, 'p) world \<Rightarrow> rat \<Rightarrow> rat \<Rightarrow> Units \<Rightarrow> request list \<Rightarrow> (exn + 'p ForecastRes) \<times> request list" where
  "forecast w la lo un reqs =
     (if no_key w then (Inl (Error ''API key not configured''), reqs)
      else
        (case forecast_fetch w la lo un of
           Rejected e \<Rightarrow> Inl e
         | Response ok body \<Rightarrow>
             if \<not> ok then Inl (Error ''Forecast data failed to load'') else body,
         reqs @ [ForecastRequest la lo un]))"

text \<open>
  \<^verbatim>\<open>await Promise.all([p1, p2])\<close>: both values, or the reason of the promise that is
  rejected first.
\<close>

fun promise_all :: "bool \<Rightarrow> exn + 'a \<Rightarrow> exn + 'b \<Rightarrow> exn + ('a \<times> 'b)" where
  "promise_all second_first (Inr a) (Inr b) = Inr (a, b)"
| "promise_all second_first (Inl e) (Inr b) = Inl e"
| "promise_all second_first (Inr a) (Inl e) = Inl e"
| "promise_all second_first (Inl e1) (Inl e2) = Inl (if second_first then e2 else e1)"

subsection \<open>The search\<close>

text \<open>
  The state of \<^verbatim>\<open>App\<close> that \<^verbatim>\<open>runSearch\<close> reads and writes (\<^verbatim>\<open>useState\<close>), the
  local storage, and the log of requests sent. \<open>None\<close> is \<^verbatim>\<open>null\<close>.
\<close>

record ('w, 'p) SearchState =
  q :: string
  city :: "Geo option"
  now :: "'w option"
  fc :: "'p ForecastItem list option"
  loading :: bool
  error :: "string option"
  recent :: "string list"
  units :: Units
  localStorage :: "string \<rightharpoonup> string"
  sent :: "request list"

text \<open>
  \<^verbatim>\<open>saveRecent(name)\<close>. The callback reads the \<^verbatim>\<open>recent\<close> of the render that
  created it, which is the \<^verbatim>\<open>recent\<close> of the state in which the search started.
  Writing the storage is taken to succeed.
\<close>

definition saveRecent :: "string \<Rightarrow> ('w, 'p) SearchState \<Rightarrow> ('w, 'p) SearchState" where
  "saveRecent new_name s =
     (let next = next_recent new_name (recent s)
      in s\<lparr>recent := next,
           localStorage := (localStorage s)(RECENT_KEY \<mapsto> JSON_stringify next)\<rparr>)"

text \<open>
  The \<^verbatim>\<open>try\<close> block of \<^verbatim>\<open>runSearch\<close>: the state it leaves, and the exception it
  throws, if any. The writes made before a throw stay.
\<close>

definition try_block ::
  "('w, 'p) world \<Rightarrow> string \<Rightarrow> ('w, 'p) SearchState \<Rightarrow> ('w, 'p) SearchState \<times> exn option" where
  "try_block w cityName s =
     (let (found, sent1) = geocode w cityName (sent s);
          s1 = s\<lparr>sent := sent1\<rparr>
      in case found of
           Inl e \<Rightarrow> (s1, Some e)
         | Inr None \<Rightarrow> (s1, Some (Error ''City not found''))
         | Inr (Some g) \<Rightarrow>
             (let s2 = s1\<lparr>city := Some g\<rparr>;
                  (p1, sent2) = current w (lat g) (lon g) (units s) (sent s2);
                  (p2, sent3) = forecast w (lat g) (lon g) (units s) sent2;
                  s3 = s2\<lparr>sent := sent3\<rparr>
              in case promise_all (forecast_settles_first w) p1 p2 of
                   Inl e \<Rightarrow> (s3, Some e)
                 | Inr (wn, f) \<Rightarrow>
                     (let s4 = s3\<lparr>now := Some wn\<rparr>
                      in case pickDaily (list f) of
                           Inl e \<Rightarrow> (s4, Some e)
                         | Inr daily \<Rightarrow> (saveRecent (name g) (s4\<lparr>fc := Some daily\<rparr>), None))))"

text \<open>The \<^verbatim>\<open>catch\<close> block: \<^verbatim>\<open>e.message || 'Something went wrong'\<close>.\<close>

definition catch_block :: "exn \<Rightarrow> ('w, 'p) SearchState \<Rightarrow> ('w, 'p) SearchState" where
  "catch_block e s =
     s\<lparr>error := Some (if message e = [] then ''Something went wrong'' else message e),
       now := None,
       fc := None\<rparr>"

text \<open>\<^verbatim>\<open>runSearch(cityName)\<close>, from the state in which it is called to the state it leaves.\<close>

definition runSearch ::
  "('w, 'p) world \<Rightarrow> string \<Rightarrow> ('w, 'p) SearchState \<Rightarrow> ('w, 'p) SearchState" where
  "runSearch w cityName s =
     (if trim cityName = [] then s
      else if no_key w then
        s\<lparr>error := Some ''Missing API key. Set VITE_OPENWEATHER_API_KEY environment variable.''\<rparr>
      else
        (let (s1, thrown) = try_block w cityName (s\<lparr>loading := True, error := None\<rparr>);
             s2 = (case thrown of None \<Rightarrow> s1 | Some e \<Rightarrow> catch_block e s1)
         in s2\<lparr>loading := False\<rparr>))"

subsection \<open>Notions for the properties of the recent list\<close>

text \<open>A JSON value that is an array of strings.\<close>

definition string_array :: "json \<Rightarrow> bool" where
  "string_array v = (case v of JArray xs \<Rightarrow> list_all (\<lambda>x. case x of JString us \<Rightarrow> True | _ \<Rightarrow> False) xs | _ \<Rightarrow> False)"

text \<open>The tokens of the elements of an array of strings, as \<^verbatim>\<open>JSON.stringify\<close> writes them.\<close>

fun string_tokens :: "string list \<Rightarrow> token list" where
  "string_tokens [] = []"
| "string_tokens [x] = [TString (map of_char x)]"
| "string_tokens (x # y # ys) = TString (map of_char x) # TComma # string_tokens (y # ys)"

subsection \<open>Sample feeds, services and states\<close>

definition sample :: "string \<Rightarrow> unit ForecastItem" where
  "sample txt = \<lparr>dt = 0, dt_txt = txt, payload = ()\<rparr>"


text \<open>Nine points on six dates, and eight points on one date.\<close>

definition busy_week :: "unit ForecastItem list" where
  "busy_week = map sample [''2024-05-01 09:00:00'', ''2024-05-01 15:00:00'',
     ''2024-05-02 00:00:00'', ''2024-05-02 12:00:00'', ''2024-05-02 21:00:00'',
     ''2024-05-03 12:00:00'', ''2024-05-04 12:00:00'', ''2024-05-05 12:00:00'',
     ''2024-05-06 12:00:00'']"

definition eight_points :: "unit ForecastItem list" where
  "eight_points = map sample [''2024-05-01 00:00:00'', ''2024-05-01 03:00:00'',
     ''2024-05-01 06:00:00'', ''2024-05-01 09:00:00'', ''2024-05-01 12:00:00'',
     ''2024-05-01 15:00:00'', ''2024-05-01 18:00:00'', ''2024-05-01 21:00:00'']"

definition unordered_days :: "unit ForecastItem list" where
  "unordered_days = map sample [''2024-05-03 12:00:00'', ''2024-05-01 18:00:00'',
     ''2024-05-02 06:00:00'', ''2024-05-01 21:00:00'']"

definition two_days :: "unit ForecastItem list" where
  "two_days = map sample [''2024-04-30 21:00:00'', ''2024-05-01 00:00:00'', ''2024-05-01 03:00:00'']"

definition london :: Geo where
  "london = \<lparr>name = ''London'', lat = 51.5, lon = - 0.13, country = ''GB'', state = Some ''England''\<rparr>"

text \<open>A service that answers every request.\<close>

definition all_up :: "(unit, unit) world" where
  "all_up =
     \<lparr>KEY = Some ''0123456789abcdef'',
      geo_fetch = (\<lambda>c. Response True (Inr [london])),
      weather_fetch = (\<lambda>la lo un. Response True (Inr ())),
      forecast_fetch = (\<lambda>la lo un. Response True (Inr \<lparr>list = two_days\<rparr>)),
      forecast_settles_first = False\<rparr>"

text \<open>The forecast endpoint answers with an error status; no connection at all; no key.\<close>

definition forecast_down :: "(unit, unit) world" where
  "forecast_down = all_up\<lparr>forecast_fetch := (\<lambda>la lo un. Response False (Inr \<lparr>list = []\<rparr>))\<rparr>"

definition offline :: "(unit, unit) world" where
  "offline =
     all_up\<lparr>geo_fetch := (\<lambda>c. Rejected (TypeError ''Failed to fetch'')),
            weather_fetch := (\<lambda>la lo un. Rejected (TypeError ''Failed to fetch'')),
            forecast_fetch := (\<lambda>la lo un. Rejected (TypeError ''Failed to fetch''))\<rparr>"

definition unconfigured :: "(unit, unit) world" where
  "unconfigured = all_up\<lparr>KEY := None\<rparr>"

text \<open>The state of \<^verbatim>\<open>App\<close> at its first render, and after a search that showed London.\<close>

definition fresh :: "(unit, unit) SearchState" where
  "fresh =
     \<lparr>q = ''Minneapolis'', city = None, now = None, fc = None, loading = False, error = None,
      recent = [], units = imperial, localStorage = Map.empty, sent = []\<rparr>"

definition showing_london :: "(unit, unit) SearchState" where
  "showing_london =
     \<lparr>q = ''London'', city = Some london, now = Some (),
      fc = Some [sample ''2024-04-30 21:00:00'', sample ''2024-05-01 03:00:00''],
      loading = False, error = None, recent = [''London''], units = imperial,
      localStorage = [RECENT_KEY \<mapsto> JSON_stringify [''London'']],
      sent = [GeoRequest ''London'', WeatherRequest 51.5 (- 0.13) imperial,
              ForecastRequest 51.5 (- 0.13) imperial]\<rparr>"

definition seven_cities :: "string list" where
  "seven_cities = [''Oslo'', ''Paris'', ''Rome'', ''Lima'', ''Cairo'', ''Tokyo'', ''Delhi'']"

section \<open>Properties of the summary\<close>

subsection \<open>Splitting, comparing, grouping\<close>

lemma split_not_Nil: "split sep s \<noteq> []"
  by (induction s) (auto split: list.splits)

lemma split_first: "split sep s = takeWhile (\<lambda>c. c \<noteq> sep) s # tl (split sep s)"
  by (induction s) (auto split: list.splits simp: split_not_Nil)

lemma split_second: "index (split sep s) 1 \<noteq> None \<longleftrightarrow> sep \<in> set s"
proof (induction s)
  case Nil
  then show ?case by simp
next
  case (Cons c s)
  obtain p ps where sp: "split sep s = p # ps"
    using split_not_Nil[of sep s] by (cases "split sep s") auto
  show ?case
  proof (cases "c = sep")
    case True
    then show ?thesis by (simp add: sp)
  next
    case False
    with Cons sp show ?thesis by simp
  qed
qed

lemma day_of_takeWhile: "day_of it = takeWhile (\<lambda>c. c \<noteq> CHR '' '') (dt_txt it)"
  unfolding day_of_def by (subst split_first) simp

text \<open>
  A point is well formed when its \<^verbatim>\<open>dt_txt\<close> contains a space and the text before the
  first space is not the name of an inherited property.
\<close>

lemma well_formed_iff:
  "well_formed it \<longleftrightarrow>
     CHR '' '' \<in> set (dt_txt it) \<and>
     takeWhile (\<lambda>c. c \<noteq> CHR '' '') (dt_txt it) \<notin> set Object_prototype_keys"
proof -
  have "has_time it \<longleftrightarrow> CHR '' '' \<in> set (dt_txt it)"
    unfolding has_time_def by (rule split_second)
  then show ?thesis
    unfolding well_formed_def own_key_def day_of_takeWhile by blast
qed

lemma has_time_iff: "has_time it \<longleftrightarrow> (\<exists>h. hour_of it = Inr h)"
  by (auto simp: has_time_def hour_of_def split: option.splits)

lemma js_less_trans: "js_less a b \<Longrightarrow> js_less b c \<Longrightarrow> js_less a c"
  by (cases a; cases b; cases c) auto

lemma js_less_irrefl: "\<not> js_less a a"
  by (cases a) auto

lemma js_less_asym: "js_less a b \<Longrightarrow> \<not> js_less b a"
  by (cases a; cases b) auto

lemma js_less_Finite_cases: "\<not> js_less (Finite x) b \<Longrightarrow> js_less c b \<Longrightarrow> js_less c (Finite x)"
  by (cases b; cases c) auto

lemma js_less_left_Finite: "js_less a b \<Longrightarrow> \<exists>x. a = Finite x"
  by (cases a; cases b) auto

lemma fst_push_item:
  "map fst (push_item groups day item) =
     (if day \<in> fst ` set groups then map fst groups else map fst groups @ [day])"
  by (induction groups day item rule: push_item.induct) auto

lemma lookup_push_item:
  "lookup (push_item groups day item) d = lookup groups d @ (if d = day then [item] else [])"
  by (induction groups day item rule: push_item.induct) (auto simp: lookup_def)

lemma map_of_push_item:
  "map_of (push_item groups day item) d =
     (if d = day then Some (lookup groups d @ [item]) else map_of groups d)"
  by (induction groups day item rule: push_item.induct) (auto simp: lookup_def)

lemma keys_push_item: "fst ` set (push_item groups day item) = insert day (fst ` set groups)"
proof -
  have "set (map fst (push_item groups day item)) = insert day (set (map fst groups))"
    unfolding fst_push_item by auto
  then show ?thesis by simp
qed

lemma distinct_push_item: "distinct (map fst groups) \<Longrightarrow> distinct (map fst (push_item groups day item))"
  unfolding fst_push_item by auto

lemma group_loop_ok:
  "(\<exists>groups'. group_loop groups feed = Inr groups') \<longleftrightarrow> (\<forall>it \<in> set feed. own_key it)"
  by (induction feed arbitrary: groups) (auto simp: Let_def own_key_def)

lemma group_loop_keys:
  "group_loop groups feed = Inr groups' \<Longrightarrow>
     fst ` set groups' = fst ` set groups \<union> day_of ` set feed"
proof (induction feed arbitrary: groups)
  case Nil then show ?case by simp
next
  case (Cons item feed)
  from Cons.prems have "group_loop (push_item groups (day_of item) item) feed = Inr groups'"
    by (simp add: Let_def split: if_splits)
  from Cons.IH[OF this] show ?case by (simp add: keys_push_item)
qed

lemma group_loop_distinct:
  "group_loop groups feed = Inr groups' \<Longrightarrow> distinct (map fst groups) \<Longrightarrow> distinct (map fst groups')"
proof (induction feed arbitrary: groups)
  case Nil then show ?case by simp
next
  case (Cons item feed)
  from Cons.prems have "group_loop (push_item groups (day_of item) item) feed = Inr groups'"
    by (simp add: Let_def split: if_splits)
  from Cons.IH[OF this] Cons.prems(2) show ?case by (simp add: distinct_push_item)
qed

lemma group_loop_lookup_gen:
  "group_loop groups feed = Inr groups' \<Longrightarrow> lookup groups' d = lookup groups d @ group_of feed d"
proof (induction feed arbitrary: groups)
  case Nil then show ?case by (simp add: group_of_def)
next
  case (Cons item feed)
  then show ?case
    by (auto simp: Let_def lookup_push_item group_of_def split: if_splits)
qed

lemma group_loop_map_of:
  assumes "group_loop [] feed = Inr groups" and "d \<in> set (map fst groups)"
  shows "map_of groups d = Some (group_of feed d)" and "group_of feed d \<noteq> []"
proof -
  from assms(2) obtain items where m: "map_of groups d = Some items"
    by (metis map_of_eq_None_iff not_Some_eq set_map)
  have "lookup groups d = group_of feed d"
    using group_loop_lookup_gen[OF assms(1), of d] by (simp add: lookup_def)
  with m show "map_of groups d = Some (group_of feed d)" by (simp add: lookup_def)
  from assms have "d \<in> day_of ` set feed" using group_loop_keys[OF assms(1)] by simp
  then show "group_of feed d \<noteq> []" by (auto simp: group_of_def filter_empty_conv)
qed

lemma group_loop_days:
  assumes "group_loop [] feed = Inr groups"
  shows "sort (map fst groups) = days_of feed"
proof -
  have "distinct (map fst groups)" using group_loop_distinct[OF assms] by simp
  moreover have "set (map fst groups) = set (remdups (map day_of feed))"
    using group_loop_keys[OF assms] by simp
  ultimately show ?thesis
    unfolding days_of_def
    by (intro sorted_distinct_set_unique) simp_all
qed

subsection \<open>The inner loop\<close>

lemma best_loop_hours:
  "best_loop best bestDiff items = Inr r \<Longrightarrow> \<forall>it \<in> set items. \<exists>h. hour_of it = Inr h"
  by (induction items arbitrary: best bestDiff) (auto simp: Let_def split: sum.splits if_splits)

lemma best_loop_total:
  "\<forall>it \<in> set items. has_time it \<Longrightarrow> \<exists>r. best_loop best bestDiff items = Inr r"
  by (induction items arbitrary: best bestDiff) (auto simp: Let_def has_time_def hour_of_def split: sum.splits option.splits)

text \<open>
  The invariant of the inner loop: either \<open>best\<close> was never replaced, and then no point
  was below \<open>bestDiff\<close>; or the result is a point below \<open>bestDiff\<close> that no point of the
  list is below, and that is below every earlier point with a numeric hour.
\<close>

lemma best_loop_char:
  "best_loop best bestDiff items = Inr r \<Longrightarrow>
     (r = best \<and> (\<forall>it \<in> set items. \<not> js_less (noon_distance it) bestDiff)) \<or>
     (\<exists>i < length items. r = items ! i \<and> js_less (noon_distance r) bestDiff \<and>
        (\<forall>j < length items. \<not> js_less (noon_distance (items ! j)) (noon_distance r)) \<and>
        (\<forall>j < i. \<forall>x. noon_distance (items ! j) = Finite x \<longrightarrow> js_less (noon_distance r) (Finite x)))"
proof (induction items arbitrary: best bestDiff)
  case Nil
  then show ?case by simp
next
  case (Cons it items)
  from Cons.prems obtain hour where h: "hour_of it = Inr hour"
    by (auto split: sum.splits)
  define diff where "diff = abs_12_minus hour"
  have nd: "noon_distance it = diff" by (simp add: noon_distance_def h diff_def)
  show ?case
  proof (cases "js_less diff bestDiff")
    case True
    with Cons.prems h have run: "best_loop it diff items = Inr r"
      by (simp add: diff_def)
    from Cons.IH[OF run] show ?thesis
    proof (elim disjE conjE exE)
      assume r: "r = it" and none: "\<forall>it' \<in> set items. \<not> js_less (noon_distance it') diff"
      have "\<forall>j < length (it # items). \<not> js_less (noon_distance ((it # items) ! j)) (noon_distance r)"
      proof (intro allI impI)
        fix j assume "j < length (it # items)"
        then show "\<not> js_less (noon_distance ((it # items) ! j)) (noon_distance r)"
          using none r nd by (cases j) (auto simp: js_less_irrefl)
      qed
      with r nd True have
        "0 < length (it # items) \<and> r = (it # items) ! 0 \<and> js_less (noon_distance r) bestDiff \<and>
           (\<forall>j < length (it # items). \<not> js_less (noon_distance ((it # items) ! j)) (noon_distance r)) \<and>
           (\<forall>j < (0::nat). \<forall>x. noon_distance ((it # items) ! j) = Finite x \<longrightarrow> js_less (noon_distance r) (Finite x))"
        by simp
      then show ?thesis by blast
    next
      fix i
      assume i: "i < length items" and r: "r = items ! i"
        and less: "js_less (noon_distance r) diff"
        and minimal: "\<forall>j < length items. \<not> js_less (noon_distance (items ! j)) (noon_distance r)"
        and first: "\<forall>j < i. \<forall>x. noon_distance (items ! j) = Finite x \<longrightarrow> js_less (noon_distance r) (Finite x)"
      have a: "js_less (noon_distance r) bestDiff"
        using less True by (rule js_less_trans)
      have b: "\<forall>j < length (it # items). \<not> js_less (noon_distance ((it # items) ! j)) (noon_distance r)"
      proof (intro allI impI)
        fix j assume "j < length (it # items)"
        then show "\<not> js_less (noon_distance ((it # items) ! j)) (noon_distance r)"
          using minimal nd js_less_asym[OF less] by (cases j) auto
      qed
      have c: "\<forall>j < Suc i. \<forall>x. noon_distance ((it # items) ! j) = Finite x \<longrightarrow> js_less (noon_distance r) (Finite x)"
      proof (intro allI impI)
        fix j x assume "j < Suc i" and "noon_distance ((it # items) ! j) = Finite x"
        then show "js_less (noon_distance r) (Finite x)"
          using first nd less by (cases j) auto
      qed
      from i r a b c have
        "Suc i < length (it # items) \<and> r = (it # items) ! Suc i \<and> js_less (noon_distance r) bestDiff \<and>
           (\<forall>j < length (it # items). \<not> js_less (noon_distance ((it # items) ! j)) (noon_distance r)) \<and>
           (\<forall>j < Suc i. \<forall>x. noon_distance ((it # items) ! j) = Finite x \<longrightarrow> js_less (noon_distance r) (Finite x))"
        by simp
      then show ?thesis by blast
    qed
  next
    case False
    with Cons.prems h have run: "best_loop best bestDiff items = Inr r"
      by (simp add: diff_def)
    from Cons.IH[OF run] show ?thesis
    proof (elim disjE conjE exE)
      assume "r = best" and "\<forall>it' \<in> set items. \<not> js_less (noon_distance it') bestDiff"
      with False nd show ?thesis by simp
    next
      fix i
      assume i: "i < length items" and r: "r = items ! i"
        and less: "js_less (noon_distance r) bestDiff"
        and minimal: "\<forall>j < length items. \<not> js_less (noon_distance (items ! j)) (noon_distance r)"
        and first: "\<forall>j < i. \<forall>x. noon_distance (items ! j) = Finite x \<longrightarrow> js_less (noon_distance r) (Finite x)"
      have nl: "\<not> js_less diff (noon_distance r)"
        using False less js_less_trans by blast
      have b: "\<forall>j < length (it # items). \<not> js_less (noon_distance ((it # items) ! j)) (noon_distance r)"
      proof (intro allI impI)
        fix j assume "j < length (it # items)"
        then show "\<not> js_less (noon_distance ((it # items) ! j)) (noon_distance r)"
          using minimal nd nl by (cases j) auto
      qed
      have c: "\<forall>j < Suc i. \<forall>x. noon_distance ((it # items) ! j) = Finite x \<longrightarrow> js_less (noon_distance r) (Finite x)"
      proof (intro allI impI)
        fix j x assume "j < Suc i" and fin: "noon_distance ((it # items) ! j) = Finite x"
        show "js_less (noon_distance r) (Finite x)"
        proof (cases j)
          case 0
          with fin nd have "diff = Finite x" by simp
          with False less show ?thesis using js_less_Finite_cases by blast
        next
          case (Suc j')
          with \<open>j < Suc i\<close> fin first show ?thesis by simp
        qed
      qed
      from i r less b c have
        "Suc i < length (it # items) \<and> r = (it # items) ! Suc i \<and> js_less (noon_distance r) bestDiff \<and>
           (\<forall>j < length (it # items). \<not> js_less (noon_distance ((it # items) ! j)) (noon_distance r)) \<and>
           (\<forall>j < Suc i. \<forall>x. noon_distance ((it # items) ! j) = Finite x \<longrightarrow> js_less (noon_distance r) (Finite x))"
        by simp
      then show ?thesis by blast
    qed
  qed
qed

lemma best_loop_first_closest:
  assumes "best_loop it0 Infinity (it0 # items) = Inr r"
  shows "\<exists>i < length (it0 # items). r = (it0 # items) ! i \<and>
           (\<forall>j < length (it0 # items). \<forall>y. noon_distance ((it0 # items) ! j) = Finite y \<longrightarrow>
              (\<exists>x. noon_distance r = Finite x \<and> x \<le> y \<and> (j < i \<longrightarrow> x < y))) \<and>
           ((\<forall>it \<in> set (it0 # items). \<forall>y. noon_distance it \<noteq> Finite y) \<longrightarrow> i = 0)"
proof -
  let ?g = "it0 # items"
  from best_loop_char[OF assms] show ?thesis
  proof (elim disjE conjE exE)
    assume r: "r = it0" and none: "\<forall>it \<in> set ?g. \<not> js_less (noon_distance it) Infinity"
    have nofin: "\<And>j y. j < length ?g \<Longrightarrow> noon_distance (?g ! j) \<noteq> Finite y"
    proof
      fix j y assume "j < length ?g" and "noon_distance (?g ! j) = Finite y"
      moreover from \<open>j < length ?g\<close> have "?g ! j \<in> set ?g" by (rule nth_mem)
      ultimately show False using none by (metis js_less.simps(2))
    qed
    have "0 < length ?g \<and> r = ?g ! 0 \<and>
           (\<forall>j < length ?g. \<forall>y. noon_distance (?g ! j) = Finite y \<longrightarrow>
              (\<exists>x. noon_distance r = Finite x \<and> x \<le> y \<and> (j < 0 \<longrightarrow> x < y))) \<and>
           ((\<forall>it \<in> set ?g. \<forall>y. noon_distance it \<noteq> Finite y) \<longrightarrow> (0::nat) = 0)"
      using r nofin by simp
    then show ?thesis by blast
  next
    fix i
    assume i: "i < length ?g" and r: "r = ?g ! i"
      and less: "js_less (noon_distance r) Infinity"
      and minimal: "\<forall>j < length ?g. \<not> js_less (noon_distance (?g ! j)) (noon_distance r)"
      and first: "\<forall>j < i. \<forall>x. noon_distance (?g ! j) = Finite x \<longrightarrow> js_less (noon_distance r) (Finite x)"
    from less obtain x where x: "noon_distance r = Finite x"
      using js_less_left_Finite by blast
    have a: "\<forall>j < length ?g. \<forall>y. noon_distance (?g ! j) = Finite y \<longrightarrow>
              (\<exists>x. noon_distance r = Finite x \<and> x \<le> y \<and> (j < i \<longrightarrow> x < y))"
    proof (intro allI impI)
      fix j y assume j: "j < length ?g" and y: "noon_distance (?g ! j) = Finite y"
      from minimal j y x have "x \<le> y" by (metis js_less.simps(1) not_le_imp_less)
      moreover have "j < i \<longrightarrow> x < y" using first y x by (metis js_less.simps(1))
      ultimately show "\<exists>x. noon_distance r = Finite x \<and> x \<le> y \<and> (j < i \<longrightarrow> x < y)"
        using x by simp
    qed
    have b: "(\<forall>it \<in> set ?g. \<forall>y. noon_distance it \<noteq> Finite y) \<longrightarrow> i = 0"
      using x r i by (metis nth_mem)
    from i r a b show ?thesis by blast
  qed
qed

lemma best_loop_mem:
  assumes "best_loop it0 Infinity (it0 # items) = Inr r"
  shows "r \<in> set (it0 # items)"
proof -
  from best_loop_first_closest[OF assms] obtain i where "i < length (it0 # items)" "r = (it0 # items) ! i"
    by blast
  then show ?thesis by (metis nth_mem)
qed

lemma selects_closest:
  assumes "selects items r"
  shows "\<exists>i. closest_to_noon_first items i \<and> r = items ! i"
proof -
  from assms obtain it0 tl_items where g: "items = it0 # tl_items"
    and b: "best_loop it0 Infinity (it0 # tl_items) = Inr r"
    by (auto simp: selects_def split: list.splits)
  from best_loop_first_closest[OF b] show ?thesis
    unfolding closest_to_noon_first_def g by blast
qed

lemma selects_mem: "selects items r \<Longrightarrow> r \<in> set items"
  using selects_closest[of items r] by (auto simp: closest_to_noon_first_def)

subsection \<open>The outer loop and the whole function\<close>

lemma day_loop_char:
  assumes "\<forall>d \<in> set days. \<exists>it0 items. map_of groups d = Some (it0 # items)"
    and "day_loop groups days results = Inr out"
  shows "\<exists>picked. out = results @ picked \<and>
           list_all2 (\<lambda>d b. selects (lookup groups d) b) days picked"
  using assms
proof (induction days arbitrary: results)
  case Nil
  then show ?case by simp
next
  case (Cons d days)
  from Cons.prems(1) obtain it0 items where m: "map_of groups d = Some (it0 # items)"
    by auto
  with Cons.prems(2) obtain best where b: "best_loop it0 Infinity (it0 # items) = Inr best"
    and run: "day_loop groups days (results @ [best]) = Inr out"
    by (auto split: sum.splits)
  from Cons.prems(1) have "\<forall>d \<in> set days. \<exists>it0 items. map_of groups d = Some (it0 # items)"
    by simp
  from Cons.IH[OF this run] obtain picked where
    p: "out = (results @ [best]) @ picked" "list_all2 (\<lambda>d b. selects (lookup groups d) b) days picked"
    by blast
  have "selects (lookup groups d) best" using m b by (simp add: selects_def lookup_def)
  with p have "out = results @ (best # picked) \<and>
      list_all2 (\<lambda>d b. selects (lookup groups d) b) (d # days) (best # picked)"
    by simp
  then show ?case by blast
qed

lemma day_loop_total:
  assumes "\<forall>d \<in> set days. \<exists>it0 items. map_of groups d = Some (it0 # items) \<and> (\<forall>it \<in> set (it0 # items). has_time it)"
  shows "\<exists>out. day_loop groups days results = Inr out"
  using assms
proof (induction days arbitrary: results)
  case Nil
  then show ?case by simp
next
  case (Cons d days)
  from Cons.prems obtain it0 items where m: "map_of groups d = Some (it0 # items)"
    and t: "\<forall>it \<in> set (it0 # items). has_time it"
    by auto
  from best_loop_total[OF t] obtain best where b: "best_loop it0 Infinity (it0 # items) = Inr best"
    by blast
  from Cons.prems have "\<forall>d \<in> set days. \<exists>it0 items. map_of groups d = Some (it0 # items) \<and> (\<forall>it \<in> set (it0 # items). has_time it)"
    by simp
  from Cons.IH[OF this, of "results @ [best]"] m b show ?case by simp
qed

lemma nonempty_group:
  assumes "group_loop [] feed = Inr groups" and "d \<in> set (days_of feed)"
  shows "\<exists>it0 items. map_of groups d = Some (it0 # items) \<and> it0 # items = group_of feed d"
proof -
  from assms(2) have "d \<in> day_of ` set feed" by (simp add: days_of_def)
  then have "d \<in> set (map fst groups)" using group_loop_keys[OF assms(1)] by simp
  from group_loop_map_of[OF assms(1) this] show ?thesis
    by (cases "group_of feed d") auto
qed

lemma pickDaily_results_char:
  assumes "pickDaily_results feed = Inr results"
  shows "list_all2 (\<lambda>d b. selects (group_of feed d) b) (days_of feed) results"
proof -
  from assms obtain groups where g: "group_loop [] feed = Inr groups"
    and run: "day_loop groups (sort (map fst groups)) [] = Inr results"
    by (auto simp: pickDaily_results_def split: sum.splits)
  have days: "sort (map fst groups) = days_of feed" by (rule group_loop_days[OF g])
  have ne: "\<forall>d \<in> set (days_of feed). \<exists>it0 items. map_of groups d = Some (it0 # items)"
    using nonempty_group[OF g] by blast
  from run days have "day_loop groups (days_of feed) [] = Inr results" by simp
  from day_loop_char[OF ne this]
  have "list_all2 (\<lambda>d b. selects (lookup groups d) b) (days_of feed) results"
    by simp
  moreover have "\<forall>d \<in> set (days_of feed). lookup groups d = group_of feed d"
    using nonempty_group[OF g] by (fastforce simp: lookup_def)
  ultimately show ?thesis
    by (auto simp: list_all2_conv_all_nth)
qed

lemma pickDaily_results_total:
  assumes "\<forall>it \<in> set feed. own_key it \<and> has_time it"
  shows "\<exists>results. pickDaily_results feed = Inr results"
proof -
  from assms obtain groups where g: "group_loop [] feed = Inr groups"
    using group_loop_ok[of "[]" feed] by blast
  have "\<forall>d \<in> set (sort (map fst groups)).
          \<exists>it0 items. map_of groups d = Some (it0 # items) \<and> (\<forall>it \<in> set (it0 # items). has_time it)"
  proof
    fix d assume "d \<in> set (sort (map fst groups))"
    then have "d \<in> set (days_of feed)" using group_loop_days[OF g] by simp
    from nonempty_group[OF g this] obtain it0 items where
      m: "map_of groups d = Some (it0 # items)" "it0 # items = group_of feed d" by blast
    then have "\<forall>it \<in> set (it0 # items). has_time it"
      using assms by (auto simp: group_of_def)
    with m show "\<exists>it0 items. map_of groups d = Some (it0 # items) \<and> (\<forall>it \<in> set (it0 # items). has_time it)"
      by blast
  qed
  from day_loop_total[OF this, of "[]"] g show ?thesis
    by (simp add: pickDaily_results_def)
qed

lemma pickDaily_results_wf:
  assumes "pickDaily_results feed = Inr results"
  shows "\<forall>it \<in> set feed. own_key it \<and> has_time it"
proof
  fix it assume it: "it \<in> set feed"
  from assms obtain groups where g: "group_loop [] feed = Inr groups"
    by (auto simp: pickDaily_results_def split: sum.splits)
  then have own: "own_key it" using group_loop_ok[of "[]" feed] it by blast
  have d: "day_of it \<in> set (days_of feed)" using it by (simp add: days_of_def)
  then obtain k where k: "k < length (days_of feed)" "days_of feed ! k = day_of it"
    by (auto simp: in_set_conv_nth)
  from pickDaily_results_char[OF assms] k have "selects (group_of feed (day_of it)) (results ! k)"
    by (auto simp: list_all2_conv_all_nth)
  then obtain it0 items where "group_of feed (day_of it) = it0 # items"
    "best_loop it0 Infinity (it0 # items) = Inr (results ! k)"
    by (auto simp: selects_def split: list.splits)
  moreover have "it \<in> set (group_of feed (day_of it))" using it by (simp add: group_of_def)
  ultimately have "\<exists>h. hour_of it = Inr h" using best_loop_hours by metis
  then show "own_key it \<and> has_time it" using own by (simp add: has_time_iff)
qed

lemma length_days_of: "length (days_of feed) = card (day_of ` set feed)"
  by (simp add: days_of_def length_remdups_card_conv)

lemma strict_sorted_days_of: "sorted_wrt (<) (days_of feed)"
  by (simp add: days_of_def strict_sorted_iff)

lemma pickDaily_results_days:
  assumes "pickDaily_results feed = Inr results"
  shows "map day_of results = days_of feed" and "set results \<subseteq> set feed"
proof -
  note c = pickDaily_results_char[OF assms]
  then have len: "length results = length (days_of feed)"
    by (simp add: list_all2_lengthD)
  have mem: "\<And>k. k < length results \<Longrightarrow> results ! k \<in> set (group_of feed (days_of feed ! k))"
    using c len by (simp add: list_all2_conv_all_nth selects_mem)
  show "map day_of results = days_of feed"
  proof (rule nth_equalityI)
    show "length (map day_of results) = length (days_of feed)" using len by simp
  next
    fix k assume "k < length (map day_of results)"
    then show "map day_of results ! k = days_of feed ! k"
      using mem[of k] by (simp add: group_of_def)
  qed
  show "set results \<subseteq> set feed"
  proof
    fix r assume "r \<in> set results"
    then obtain k where "k < length results" "r = results ! k"
      by (auto simp: in_set_conv_nth)
    then show "r \<in> set feed" using mem[of k] by (simp add: group_of_def)
  qed
qed

text \<open>\<^verbatim>\<open>pickDaily\<close> returns exactly on the feeds of well-formed points; on any other it throws.\<close>

lemma pickDaily_returns_iff:
  "(\<exists>out. pickDaily feed = Inr out) \<longleftrightarrow> (\<forall>it \<in> set feed. well_formed it)"
proof
  assume "\<exists>out. pickDaily feed = Inr out"
  then obtain results where "pickDaily_results feed = Inr results"
    by (auto simp: pickDaily_def split: sum.splits)
  from pickDaily_results_wf[OF this] show "\<forall>it \<in> set feed. well_formed it"
    by (simp add: well_formed_def)
next
  assume "\<forall>it \<in> set feed. well_formed it"
  then have "\<forall>it \<in> set feed. own_key it \<and> has_time it" by (simp add: well_formed_def)
  from pickDaily_results_total[OF this] show "\<exists>out. pickDaily feed = Inr out"
    by (auto simp: pickDaily_def)
qed

lemma pickDaily_unfold:
  assumes "\<forall>it \<in> set feed. well_formed it"
  obtains results where "pickDaily_results feed = Inr results" "pickDaily feed = Inr (take 5 results)"
proof -
  from assms have "\<forall>it \<in> set feed. own_key it \<and> has_time it" by (simp add: well_formed_def)
  from pickDaily_results_total[OF this] obtain results where "pickDaily_results feed = Inr results"
    by blast
  then show ?thesis using that by (simp add: pickDaily_def)
qed

lemma pickDaily_Nil: "pickDaily [] = Inr []"
  by (simp add: pickDaily_def pickDaily_results_def)

lemmas feed_defs = pickDaily_def pickDaily_results_def sample_def day_of_def hour_of_def
  Number_def trim_def digit_def is_js_space_def Object_prototype_keys_def
  well_formed_def own_key_def has_time_def

subsection \<open>The selection is closest to noon\<close>




subsection \<open>The length of the summary\<close>

text \<open>
  Claim C3. On a feed in which every \<^verbatim>\<open>dt_txt\<close> has a space and a date portion that
  is no inherited property name, \<^verbatim>\<open>pickDaily\<close> returns a list whose length is the
  smaller of 5 and the number of distinct date portions in the feed, however many points
  share a date; on the empty feed it returns the empty list.
\<close>

theorem pickDaily_length:
  assumes "\<forall>it \<in> set feed. CHR '' '' \<in> set (dt_txt it) \<and>
             calendar_date (dt_txt it) \<notin> set Object_prototype_keys"
  shows "(\<exists>out. pickDaily feed = Inr out \<and>
            length out = min (card ((\<lambda>it. calendar_date (dt_txt it)) ` set feed)) 5) \<and>
         pickDaily ([] :: 'p ForecastItem list) = Inr []"
proof -
  have wf: "\<forall>it \<in> set feed. well_formed it"
    using assms by (simp add: well_formed_iff calendar_date_def)
  have dates: "day_of ` set feed = (\<lambda>it. calendar_date (dt_txt it)) ` set feed"
    by (simp add: day_of_takeWhile calendar_date_def)
  from wf obtain results where r: "pickDaily_results feed = Inr results"
    and p: "pickDaily feed = Inr (take 5 results)"
    by (rule pickDaily_unfold)
  have "length (map day_of results) = length (days_of feed)"
    using pickDaily_results_days(1)[OF r] by simp
  then have "length results = card ((\<lambda>it. calendar_date (dt_txt it)) ` set feed)"
    by (simp add: length_days_of dates)
  with p show ?thesis by (simp add: min.commute pickDaily_Nil)
qed

text \<open>
  Nine points on six dates give five entries, one for each of the first five dates; eight
  points on one date give one entry.
\<close>

theorem pickDaily_length_witness:
  "list_all (\<lambda>it. CHR '' '' \<in> set (dt_txt it) \<and>
      calendar_date (dt_txt it) \<notin> set Object_prototype_keys) busy_week \<and>
   length busy_week = 9 \<and>
   card ((\<lambda>it. calendar_date (dt_txt it)) ` set busy_week) = 6 \<and>
   pickDaily busy_week =
     Inr [sample ''2024-05-01 09:00:00'', sample ''2024-05-02 12:00:00'',
          sample ''2024-05-03 12:00:00'', sample ''2024-05-04 12:00:00'',
          sample ''2024-05-05 12:00:00''] \<and>
   list_all (\<lambda>it. CHR '' '' \<in> set (dt_txt it) \<and>
      calendar_date (dt_txt it) \<notin> set Object_prototype_keys) eight_points \<and>
   length eight_points = 8 \<and>
   card ((\<lambda>it. calendar_date (dt_txt it)) ` set eight_points) = 1 \<and>
   pickDaily eight_points = Inr [sample ''2024-05-01 12:00:00'']"
proof -
  have h1: "\<forall>it \<in> set busy_week. CHR '' '' \<in> set (dt_txt it) \<and>
      calendar_date (dt_txt it) \<notin> set Object_prototype_keys"
    by (simp add: busy_week_def sample_def calendar_date_def Object_prototype_keys_def)
  have h2: "\<forall>it \<in> set eight_points. CHR '' '' \<in> set (dt_txt it) \<and>
      calendar_date (dt_txt it) \<notin> set Object_prototype_keys"
    by (simp add: eight_points_def sample_def calendar_date_def Object_prototype_keys_def)
  have c1: "card ((\<lambda>it. calendar_date (dt_txt it)) ` set busy_week) = 6"
    by (simp add: busy_week_def sample_def calendar_date_def)
  have c2: "card ((\<lambda>it. calendar_date (dt_txt it)) ` set eight_points) = 1"
    by (simp add: eight_points_def sample_def calendar_date_def)
  have e1: "pickDaily busy_week =
     Inr [sample ''2024-05-01 09:00:00'', sample ''2024-05-02 12:00:00'',
          sample ''2024-05-03 12:00:00'', sample ''2024-05-04 12:00:00'',
          sample ''2024-05-05 12:00:00'']"
    by (simp add: busy_week_def feed_defs)
  have e2: "pickDaily eight_points = Inr [sample ''2024-05-01 12:00:00'']"
    by (simp add: eight_points_def feed_defs)
  from pickDaily_length[OF h1] c1 obtain out1 where
    "pickDaily busy_week = Inr out1" "length out1 = 5"
    by auto
  moreover from pickDaily_length[OF h2] c2 obtain out2 where
    "pickDaily eight_points = Inr out2" "length out2 = 1"
    by auto
  moreover have "length busy_week = 9" "length eight_points = 8"
    by (simp_all add: busy_week_def eight_points_def)
  ultimately show ?thesis
    using h1 h2 c1 c2 e1 e2 by (simp add: list_all_iff)
qed

subsection \<open>The dates of the summary\<close>

text \<open>
  On zero-padded dates the order of strings is the order of calendar dates.
\<close>

lemma digit_less: "digit a = Some x \<Longrightarrow> digit b = Some y \<Longrightarrow> (a < b) = (x < y)"
  by (auto simp: digit_def Let_def less_char_def split: if_splits)

lemma digit_eq: "digit a = Some x \<Longrightarrow> digit b = Some y \<Longrightarrow> (a = b) = (x = y)"
proof -
  assume a: "digit a = Some x" and b: "digit b = Some y"
  from a have xa: "(of_char a :: nat) = x + 48"
    by (auto simp: digit_def Let_def split: if_splits)
  from b have yb: "(of_char b :: nat) = y + 48"
    by (auto simp: digit_def Let_def split: if_splits)
  have "(a = b) = ((of_char a :: nat) = of_char b)" by (simp only: of_char_eq_iff)
  also have "\<dots> = (x = y)" unfolding xa yb by simp
  finally show ?thesis .
qed

lemma digit_le9: "digit a = Some x \<Longrightarrow> x \<le> 9"
  by (auto simp: digit_def Let_def split: if_splits)

lemma two_digits_le99: "two_digits a b = Some x \<Longrightarrow> x \<le> 99"
  by (auto simp: two_digits_def split: option.splits dest!: digit_le9)

lemma two_digits_step:
  assumes "two_digits a b = Some x" and "two_digits a' b' = Some y"
  shows "(a # b # r < a' # b' # r') = (x < y \<or> x = y \<and> r < r')"
proof -
  from assms(1) obtain p q where 1: "digit a = Some p" "digit b = Some q" "x = p * 10 + q"
    by (auto simp: two_digits_def split: option.splits)
  from assms(2) obtain p' q' where 2: "digit a' = Some p'" "digit b' = Some q'" "y = p' * 10 + q'"
    by (auto simp: two_digits_def split: option.splits)
  have le: "q \<le> 9" "q' \<le> 9" using 1 2 by (auto dest: digit_le9)
  have "(a # b # r < a' # b' # r') = (p < p' \<or> p = p' \<and> (q < q' \<or> q = q' \<and> r < r'))"
    by (simp add: digit_less[OF 1(1) 2(1)] digit_eq[OF 1(1) 2(1)] digit_less[OF 1(2) 2(2)]
        digit_eq[OF 1(2) 2(2)])
  also have "\<dots> = (x < y \<or> x = y \<and> r < r')"
    unfolding 1 2 using le by arith
  finally show ?thesis .
qed

lemma ymd_SomeD:
  assumes "ymd a = Some x"
  shows "\<exists>y1 y2 y3 y4 m1 m2 d1 d2 c y m d.
      a = [y1, y2, y3, y4, CHR ''-'', m1, m2, CHR ''-'', d1, d2] \<and>
      two_digits y1 y2 = Some c \<and> two_digits y3 y4 = Some y \<and> two_digits m1 m2 = Some m \<and>
      two_digits d1 d2 = Some d \<and> x = (c * 100 + y, m, d)"
  using assms
  by (cases a rule: ymd.cases) (auto split: option.splits if_splits)

lemma ymd_order:
  assumes "ymd a = Some x" and "ymd b = Some y"
  shows "(a < b) = date_before x y"
proof -
  from ymd_SomeD[OF assms(1)] obtain a1 a2 a3 a4 a5 a6 a7 a8 c1 y1 m1 d1 where
    a: "a = [a1, a2, a3, a4, CHR ''-'', a5, a6, CHR ''-'', a7, a8]"
    and ta: "two_digits a1 a2 = Some c1" "two_digits a3 a4 = Some y1" "two_digits a5 a6 = Some m1"
      "two_digits a7 a8 = Some d1"
    and x: "x = (c1 * 100 + y1, m1, d1)"
    by blast
  from ymd_SomeD[OF assms(2)] obtain b1 b2 b3 b4 b5 b6 b7 b8 c2 y2 m2 d2 where
    b: "b = [b1, b2, b3, b4, CHR ''-'', b5, b6, CHR ''-'', b7, b8]"
    and tb: "two_digits b1 b2 = Some c2" "two_digits b3 b4 = Some y2" "two_digits b5 b6 = Some m2"
      "two_digits b7 b8 = Some d2"
    and y: "y = (c2 * 100 + y2, m2, d2)"
    by blast
  have sep: "\<And>r r'. (CHR ''-'' # r < CHR ''-'' # r') = (r < r')" by simp
  have "(a < b) = (c1 < c2 \<or> c1 = c2 \<and> (y1 < y2 \<or> y1 = y2 \<and> (m1 < m2 \<or> m1 = m2 \<and> d1 < d2)))"
    unfolding a b
    by (simp only: two_digits_step[OF ta(1) tb(1)] two_digits_step[OF ta(2) tb(2)]
        two_digits_step[OF ta(3) tb(3)] two_digits_step[OF ta(4) tb(4)] sep) simp
  also have "\<dots> = date_before x y"
    unfolding x y date_before_def prod.case
    using two_digits_le99[OF ta(2)] two_digits_le99[OF tb(2)] by arith
  finally show ?thesis .
qed

text \<open>
  Claim C4. On a feed of well-formed points the dates of the entries that \<^verbatim>\<open>pickDaily\<close>
  returns increase strictly from each entry to the next, in the order of strings that
  \<^verbatim>\<open>sort\<close> uses, so no date occurs twice; where the dates are zero-padded
  \<^verbatim>\<open>YYYY-MM-DD\<close> texts, an earlier entry has the earlier calendar date.
\<close>

theorem pickDaily_dates_increasing:
  assumes "\<forall>it \<in> set feed. well_formed it"
  shows "\<exists>out. pickDaily feed = Inr out \<and> sorted_wrt (<) (map day_of out) \<and>
           distinct (map day_of out) \<and>
           (\<forall>i j x y. i < j \<and> j < length out \<and> ymd (day_of (out ! i)) = Some x \<and>
              ymd (day_of (out ! j)) = Some y \<longrightarrow> date_before x y)"
proof -
  from assms obtain results where r: "pickDaily_results feed = Inr results"
    and p: "pickDaily feed = Inr (take 5 results)"
    by (rule pickDaily_unfold)
  let ?out = "take 5 results"
  have "map day_of ?out = take 5 (days_of feed)"
    using pickDaily_results_days(1)[OF r] by (simp add: take_map[symmetric])
  moreover have "sorted_wrt (<) (take 5 (days_of feed))"
    using strict_sorted_days_of by (rule sorted_wrt_take)
  ultimately have s: "sorted_wrt (<) (map day_of ?out)" by simp
  then have d: "distinct (map day_of ?out)"
    by (simp add: strict_sorted_iff)
  have c: "\<forall>i j x y. i < j \<and> j < length ?out \<and> ymd (day_of (?out ! i)) = Some x \<and>
              ymd (day_of (?out ! j)) = Some y \<longrightarrow> date_before x y"
  proof (intro allI impI, elim conjE)
    fix i j x y
    assume ij: "i < j" "j < length ?out"
      and x: "ymd (day_of (?out ! i)) = Some x" and y: "ymd (day_of (?out ! j)) = Some y"
    from s ij have "map day_of ?out ! i < map day_of ?out ! j"
      by (simp only: sorted_wrt_iff_nth_less length_map)
    with ij have "day_of (?out ! i) < day_of (?out ! j)" by simp
    then show "date_before x y" by (simp only: ymd_order[OF x y])
  qed
  from p s d c show ?thesis by blast
qed

text \<open>A feed whose days are not in order comes out in order.\<close>

theorem pickDaily_dates_increasing_witness:
  "list_all well_formed unordered_days \<and>
   pickDaily unordered_days =
     Inr [sample ''2024-05-01 18:00:00'', sample ''2024-05-02 06:00:00'', sample ''2024-05-03 12:00:00''] \<and>
   sorted_wrt (<) [''2024-05-01'', ''2024-05-02'', ''2024-05-03''] \<and>
   ymd ''2024-05-01'' = Some (2024, 5, 1) \<and> ymd ''2024-05-03'' = Some (2024, 5, 3) \<and>
   date_before (2024, 5, 1) (2024, 5, 3)"
proof -
  have wf: "\<forall>it \<in> set unordered_days. well_formed it"
    by (simp add: unordered_days_def feed_defs)
  from pickDaily_dates_increasing[OF wf] obtain out where
    o: "pickDaily unordered_days = Inr out" and s: "sorted_wrt (<) (map day_of out)"
    and c: "\<forall>i j x y. i < j \<and> j < length out \<and> ymd (day_of (out ! i)) = Some x \<and>
              ymd (day_of (out ! j)) = Some y \<longrightarrow> date_before x y"
    by blast
  have e: "pickDaily unordered_days =
     Inr [sample ''2024-05-01 18:00:00'', sample ''2024-05-02 06:00:00'', sample ''2024-05-03 12:00:00'']"
    by (simp add: unordered_days_def feed_defs)
  with o have out: "out =
     [sample ''2024-05-01 18:00:00'', sample ''2024-05-02 06:00:00'', sample ''2024-05-03 12:00:00'']"
    by simp
  from s have 1: "sorted_wrt (<) [''2024-05-01'', ''2024-05-02'', ''2024-05-03'']"
    unfolding out by (simp add: sample_def day_of_def)
  have 2: "ymd ''2024-05-01'' = Some (2024, 5, 1)" "ymd ''2024-05-03'' = Some (2024, 5, 3)"
    by (simp_all add: two_digits_def digit_def)
  have "day_of (out ! 0) = ''2024-05-01''" "day_of (out ! 2) = ''2024-05-03''"
    unfolding out by (simp_all add: sample_def day_of_def)
  with c 2 have 3: "date_before (2024, 5, 1) (2024, 5, 3)"
    by (metis length_Cons list.size(3) out lessI numeral_2_eq_2 zero_less_Suc)
  from wf e 1 2 3 show ?thesis by (simp add: list_all_iff)
qed

text \<open>
  Claim C10. On a feed of well-formed points every entry that \<^verbatim>\<open>pickDaily\<close> returns is
  a point of the feed, unchanged, and the date of the entry at each position is the date at
  that position among the sorted distinct dates of the feed.
\<close>

theorem pickDaily_elements:
  assumes "\<forall>it \<in> set feed. well_formed it"
  shows "\<exists>out. pickDaily feed = Inr out \<and> set out \<subseteq> set feed \<and>
           map day_of out = take 5 (days_of feed)"
proof -
  from assms obtain results where r: "pickDaily_results feed = Inr results"
    and p: "pickDaily feed = Inr (take 5 results)"
    by (rule pickDaily_unfold)
  have "map day_of (take 5 results) = take 5 (days_of feed)"
    using pickDaily_results_days(1)[OF r] by (simp add: take_map[symmetric])
  moreover have "set (take 5 results) \<subseteq> set feed"
    using pickDaily_results_days(2)[OF r] set_take_subset by fastforce
  ultimately show ?thesis using p by blast
qed

text \<open>The last point of one day and the two first points of the next.\<close>

theorem pickDaily_elements_witness:
  "list_all well_formed two_days \<and>
   pickDaily two_days = Inr [sample ''2024-04-30 21:00:00'', sample ''2024-05-01 03:00:00''] \<and>
   take 5 (days_of two_days) = [''2024-04-30'', ''2024-05-01'']"
proof -
  have wf: "\<forall>it \<in> set two_days. well_formed it"
    by (simp add: two_days_def feed_defs)
  from pickDaily_elements[OF wf] obtain out where
    o: "pickDaily two_days = Inr out" and d: "map day_of out = take 5 (days_of two_days)"
    by blast
  have e: "pickDaily two_days = Inr [sample ''2024-04-30 21:00:00'', sample ''2024-05-01 03:00:00'']"
    by (simp add: two_days_def feed_defs)
  from o e d have "take 5 (days_of two_days) =
      map day_of [sample ''2024-04-30 21:00:00'', sample ''2024-05-01 03:00:00'']"
    by simp
  then have "take 5 (days_of two_days) = [''2024-04-30'', ''2024-05-01'']"
    by (simp add: sample_def day_of_def)
  with e wf show ?thesis by (simp add: list_all_iff)
qed

section \<open>Properties of the search\<close>

lemmas search_defs = runSearch_def try_block_def geocode_def current_def forecast_def
  catch_block_def saveRecent_def Let_def

lemmas world_defs = all_up_def forecast_down_def offline_def unconfigured_def fresh_def
  showing_london_def london_def no_key_def promise_all.simps

lemma trim_Nil_iff: "trim s = [] \<longleftrightarrow> (\<forall>c \<in> set s. is_js_space c)"
proof -
  have "trim s = [] \<longleftrightarrow> dropWhile is_js_space (rev (dropWhile is_js_space s)) = []"
    by (simp add: trim_def)
  also have "\<dots> \<longleftrightarrow> (\<forall>c \<in> set (dropWhile is_js_space s). is_js_space c)"
    by simp
  also have "\<dots> \<longleftrightarrow> dropWhile is_js_space s = []"
  proof
    assume all: "\<forall>c \<in> set (dropWhile is_js_space s). is_js_space c"
    show "dropWhile is_js_space s = []"
    proof (rule ccontr)
      assume ne: "dropWhile is_js_space s \<noteq> []"
      then have "\<not> is_js_space (hd (dropWhile is_js_space s))" by (rule hd_dropWhile)
      moreover have "hd (dropWhile is_js_space s) \<in> set (dropWhile is_js_space s)"
        using ne by (rule hd_in_set)
      ultimately show False using all by blast
    qed
  next
    assume "dropWhile is_js_space s = []"
    then show "\<forall>c \<in> set (dropWhile is_js_space s). is_js_space c"
      by (auto dest: set_dropWhileD)
  qed
  also have "\<dots> \<longleftrightarrow> (\<forall>c \<in> set s. is_js_space c)"
    by simp
  finally show ?thesis .
qed

lemma geocode_sent: "\<not> no_key w \<Longrightarrow> snd (geocode w cityName reqs) = reqs @ [GeoRequest cityName]"
  by (simp add: geocode_def)

lemma runSearch_started:
  assumes "trim cityName \<noteq> []" and "\<not> no_key w"
    and "try_block w cityName (s\<lparr>loading := True, error := None\<rparr>) = (s1, thrown)"
  shows "runSearch w cityName s =
           (case thrown of None \<Rightarrow> s1 | Some e \<Rightarrow> catch_block e s1)\<lparr>loading := False\<rparr>"
  using assms by (simp add: runSearch_def)

lemma try_block_error:
  assumes "try_block w cityName s = (s', None)"
  shows "error s' = error s"
  using assms
  by (auto simp: try_block_def saveRecent_def Let_def split: prod.splits sum.splits option.splits)

lemma try_block_thrown_fields:
  assumes "try_block w cityName s = (s', Some e)"
  shows "q s' = q s \<and> recent s' = recent s \<and> localStorage s' = localStorage s \<and> units s' = units s
         \<and> error s' = error s \<and> loading s' = loading s \<and>
         city s' = (case fst (geocode w cityName (sent s)) of Inr (Some g) \<Rightarrow> Some g | _ \<Rightarrow> city s)"
  using assms
  by (auto simp: try_block_def saveRecent_def Let_def split: prod.splits sum.splits option.splits)

text \<open>What the \<^verbatim>\<open>try\<close> block throws, by the outcome of the requests.\<close>

lemma current_result:
  "\<not> no_key w \<Longrightarrow> fst (current w la lo un reqs) =
     (case weather_fetch w la lo un of
        Rejected e \<Rightarrow> Inl e
      | Response ok body \<Rightarrow> if ok then body else Inl (Error ''Weather data failed to load''))"
  by (simp add: current_def split: fetched.splits)

lemma forecast_result:
  "\<not> no_key w \<Longrightarrow> fst (forecast w la lo un reqs) =
     (case forecast_fetch w la lo un of
        Rejected e \<Rightarrow> Inl e
      | Response ok body \<Rightarrow> if ok then body else Inl (Error ''Forecast data failed to load''))"
  by (simp add: forecast_def split: fetched.splits)

lemma try_block_thrown:
  assumes "\<not> no_key w"
  shows "snd (try_block w cityName s) =
     (case geo_fetch w cityName of
        Rejected e \<Rightarrow> Some e
      | Response ok body \<Rightarrow>
          if \<not> ok then Some (Error ''Geocoding failed'')
          else (case body of
                  Inl e \<Rightarrow> Some e
                | Inr [] \<Rightarrow> Some (Error ''City not found'')
                | Inr (g # gs) \<Rightarrow>
                    (case promise_all (forecast_settles_first w)
                            (fst (current w (lat g) (lon g) (units s) []))
                            (fst (forecast w (lat g) (lon g) (units s) [])) of
                       Inl e \<Rightarrow> Some e
                     | Inr (wn, f) \<Rightarrow>
                         (case pickDaily (list f) of Inl e \<Rightarrow> Some e | Inr daily \<Rightarrow> None))))"
  using assms
  by (simp add: try_block_def geocode_def Let_def split_beta current_result forecast_result
      split: fetched.splits sum.splits list.splits option.splits)

lemma showing_london_reached:
  "runSearch all_up ''London'' (fresh\<lparr>q := ''London''\<rparr>) = showing_london"
proof -
  have a: "trim ''London'' \<noteq> []" by (simp add: trim_def is_js_space_def)
  have b: "\<not> no_key all_up" by (simp add: all_up_def no_key_def)
  have f: "pickDaily two_days = Inr [sample ''2024-04-30 21:00:00'', sample ''2024-05-01 03:00:00'']"
    by (simp add: two_days_def feed_defs)
  have n: "next_recent ''London'' [] = [''London'']" by (simp add: next_recent_def)
  show ?thesis
    using a b
    by (simp add: runSearch_def try_block_def geocode_def current_def forecast_def saveRecent_def
        all_up_def fresh_def f n showing_london_def london_def Let_def)
qed

subsection \<open>The two guards\<close>

text \<open>
  Claim C8. A search for a text that is empty after trimming leaves the whole state as it
  was: every field of the search state, the local storage, and the log of requests sent,
  so no request is sent.
\<close>

theorem runSearch_blank:
  assumes "trim cityName = []"
  shows "runSearch w cityName s = s \<and> sent (runSearch w cityName s) = sent s"
  using assms by (simp add: runSearch_def)

theorem runSearch_blank_witness:
  "trim ''   '' = [] \<and> runSearch all_up ''   '' showing_london = showing_london"
proof -
  have b: "trim ''   '' = []" by (simp add: trim_def is_js_space_def)
  from runSearch_blank[OF b, of all_up showing_london] b show ?thesis by simp
qed

text \<open>
  Claim C7. A search for a text that is not blank, when no key is configured, sets
  \<^verbatim>\<open>error\<close> to the message that starts with ``Missing API key'', changes nothing else,
  and sends no request.
\<close>

theorem runSearch_missing_key:
  assumes "trim cityName \<noteq> []" and "no_key w"
  shows "runSearch w cityName s =
           s\<lparr>error := Some ''Missing API key. Set VITE_OPENWEATHER_API_KEY environment variable.''\<rparr> \<and>
         sent (runSearch w cityName s) = sent s"
  using assms by (simp add: runSearch_def)

theorem runSearch_missing_key_witness:
  "trim ''London'' \<noteq> [] \<and> no_key unconfigured \<and>
   error (runSearch unconfigured ''London'' fresh) =
     Some ''Missing API key. Set VITE_OPENWEATHER_API_KEY environment variable.'' \<and>
   sent (runSearch unconfigured ''London'' fresh) = []"
proof -
  have a: "trim ''London'' \<noteq> []" by (simp add: trim_def is_js_space_def)
  have b: "no_key unconfigured" by (simp add: world_defs)
  from runSearch_missing_key[OF a b, of fresh] a b show ?thesis by (simp add: fresh_def)
qed

subsection \<open>Failures\<close>

text \<open>
  Claim C5. When the geocoding request finds a location and the two weather requests do
  not both succeed, the search ends with \<^verbatim>\<open>now\<close> and \<^verbatim>\<open>fc\<close> both \<^verbatim>\<open>null\<close> and
  with an error message, so never with only one of the two set.
\<close>

theorem runSearch_all_or_nothing:
  assumes "trim cityName \<noteq> []" and "\<not> no_key w"
    and "geo_fetch w cityName = Response True (Inr (g # gs))"
    and "\<not> (\<exists>wn f. weather_fetch w (lat g) (lon g) (units s) = Response True (Inr wn) \<and>
                 forecast_fetch w (lat g) (lon g) (units s) = Response True (Inr f))"
  shows "now (runSearch w cityName s) = None \<and> fc (runSearch w cityName s) = None \<and>
         error (runSearch w cityName s) \<noteq> None"
proof -
  obtain p1 where p1: "p1 = fst (current w (lat g) (lon g) (units s) (sent s @ [GeoRequest cityName]))"
    by simp
  obtain p2 where p2: "p2 = fst (forecast w (lat g) (lon g) (units s)
       (sent s @ [GeoRequest cityName, WeatherRequest (lat g) (lon g) (units s)]))"
    by simp
  have ok1: "\<And>wn. p1 = Inr wn \<Longrightarrow> weather_fetch w (lat g) (lon g) (units s) = Response True (Inr wn)"
    using assms(2) unfolding p1
    by (auto simp: current_def split: fetched.splits if_splits)
  have ok2: "\<And>f. p2 = Inr f \<Longrightarrow> forecast_fetch w (lat g) (lon g) (units s) = Response True (Inr f)"
    using assms(2) unfolding p2
    by (auto simp: forecast_def split: fetched.splits if_splits)
  obtain e where "promise_all (forecast_settles_first w) p1 p2 = Inl e"
    using ok1 ok2 assms(4) by (cases p1; cases p2) auto
  then show ?thesis
    using assms(1,2,3) p1 p2
    by (simp add: search_defs split: prod.splits)
qed

theorem runSearch_all_or_nothing_witness:
  "trim ''London'' \<noteq> [] \<and> \<not> no_key forecast_down \<and>
   geo_fetch forecast_down ''London'' = Response True (Inr [london]) \<and>
   weather_fetch forecast_down (lat london) (lon london) (units fresh) = Response True (Inr ()) \<and>
   forecast_fetch forecast_down (lat london) (lon london) (units fresh) = Response False (Inr \<lparr>list = []\<rparr>) \<and>
   now (runSearch forecast_down ''London'' fresh) = None \<and>
   fc (runSearch forecast_down ''London'' fresh) = None \<and>
   error (runSearch forecast_down ''London'' fresh) = Some ''Forecast data failed to load''"
proof -
  have a: "trim ''London'' \<noteq> []" by (simp add: trim_def is_js_space_def)
  have b: "\<not> no_key forecast_down" by (simp add: world_defs)
  have c: "geo_fetch forecast_down ''London'' = Response True (Inr (london # []))"
    by (simp add: world_defs)
  have d: "forecast_fetch forecast_down (lat london) (lon london) (units fresh) = Response False (Inr \<lparr>list = []\<rparr>)"
    by (simp add: world_defs)
  then have e: "\<not> (\<exists>wn f. weather_fetch forecast_down (lat london) (lon london) (units fresh) = Response True (Inr wn) \<and>
      forecast_fetch forecast_down (lat london) (lon london) (units fresh) = Response True (Inr f))"
    by simp
  have f: "weather_fetch forecast_down (lat london) (lon london) (units fresh) = Response True (Inr ())"
    by (simp add: world_defs)
  have "try_block forecast_down ''London'' (fresh\<lparr>loading := True, error := None\<rparr>) =
      (fresh\<lparr>loading := True, error := None, city := Some london,
         sent := [GeoRequest ''London'', WeatherRequest (lat london) (lon london) imperial,
                  ForecastRequest (lat london) (lon london) imperial]\<rparr>,
       Some (Error ''Forecast data failed to load''))"
    using b by (simp add: try_block_def geocode_def current_def forecast_def forecast_down_def
        all_up_def fresh_def)
  then have g: "error (runSearch forecast_down ''London'' fresh) = Some ''Forecast data failed to load''"
    using a b by (simp add: runSearch_def catch_block_def)
  from runSearch_all_or_nothing[OF a b c e] a b c d f g show ?thesis by simp
qed

text \<open>
  Claim C1 says that a failed search leaves \<^verbatim>\<open>city\<close> as \<^verbatim>\<open>null\<close>. The
  \<^verbatim>\<open>catch\<close> block does not write \<^verbatim>\<open>city\<close>: after London was shown, a search for
  Paris without a connection leaves London as the city.
\<close>

theorem runSearch_failure_counterexample:
  "city (runSearch offline ''Paris'' showing_london) = Some london"
proof -
  have a: "trim ''Paris'' \<noteq> []" by (simp add: trim_def is_js_space_def)
  have b: "\<not> no_key offline" by (simp add: world_defs)
  have "try_block offline ''Paris'' (showing_london\<lparr>loading := True, error := None\<rparr>) =
      (showing_london\<lparr>loading := True, error := None,
         sent := sent showing_london @ [GeoRequest ''Paris'']\<rparr>,
       Some (TypeError ''Failed to fetch''))"
    using b by (simp add: try_block_def geocode_def offline_def all_up_def)
  then show ?thesis
    using a b by (simp add: runSearch_def catch_block_def showing_london_def)
qed

text \<open>
  Claim C1, amended. When the \<^verbatim>\<open>try\<close> block of a search throws, the search ends with
  \<^verbatim>\<open>error\<close> set to the message of what was thrown, or to ``Something went wrong'' when
  that message is empty, with \<^verbatim>\<open>now\<close> and \<^verbatim>\<open>fc\<close> both \<^verbatim>\<open>null\<close>, and not
  loading. The city is not cleared: it is the location just found when the geocoding request
  found one, and the city of the state before in every other case.
\<close>

theorem runSearch_failure:
  assumes "trim cityName \<noteq> []" and "\<not> no_key w"
    and "try_block w cityName (s\<lparr>loading := True, error := None\<rparr>) = (s1, Some e)"
  shows "error (runSearch w cityName s) =
           Some (if message e = [] then ''Something went wrong'' else message e) \<and>
         now (runSearch w cityName s) = None \<and>
         fc (runSearch w cityName s) = None \<and>
         loading (runSearch w cityName s) = False \<and>
         city (runSearch w cityName s) =
           (case geo_fetch w cityName of
              Response True (Inr (g # gs)) \<Rightarrow> Some g
            | _ \<Rightarrow> city s)"
proof -
  have run: "runSearch w cityName s = (catch_block e s1)\<lparr>loading := False\<rparr>"
    using assms by (simp add: runSearch_def)
  have "city s1 = (case fst (geocode w cityName (sent s)) of Inr (Some g) \<Rightarrow> Some g | _ \<Rightarrow> city s)"
    using try_block_thrown_fields[OF assms(3)] by (auto split: sum.splits option.splits)
  also have "\<dots> = (case geo_fetch w cityName of Response True (Inr (g # gs)) \<Rightarrow> Some g | _ \<Rightarrow> city s)"
    using assms(2)
    by (auto simp: geocode_def split: fetched.splits sum.splits list.splits bool.splits)
  finally show ?thesis
    by (simp add: run catch_block_def)
qed

theorem runSearch_failure_witness:
  "trim ''Paris'' \<noteq> [] \<and> \<not> no_key offline \<and>
   snd (try_block offline ''Paris'' (showing_london\<lparr>loading := True, error := None\<rparr>)) =
     Some (TypeError ''Failed to fetch'') \<and>
   error (runSearch offline ''Paris'' showing_london) = Some ''Failed to fetch'' \<and>
   now (runSearch offline ''Paris'' showing_london) = None \<and>
   fc (runSearch offline ''Paris'' showing_london) = None \<and>
   loading (runSearch offline ''Paris'' showing_london) = False \<and>
   city (runSearch offline ''Paris'' showing_london) = Some london"
proof -
  have a: "trim ''Paris'' \<noteq> []" by (simp add: trim_def is_js_space_def)
  have b: "\<not> no_key offline" by (simp add: world_defs)
  obtain s1 where t: "try_block offline ''Paris'' (showing_london\<lparr>loading := True, error := None\<rparr>) =
      (s1, Some (TypeError ''Failed to fetch''))"
    by (simp add: try_block_def geocode_def world_defs)
  have g: "geo_fetch offline ''Paris'' = Rejected (TypeError ''Failed to fetch'')"
    by (simp add: world_defs)
  have c: "city showing_london = Some london" by (simp add: showing_london_def)
  from runSearch_failure[OF a b t] a b t g c show ?thesis by simp
qed

subsection \<open>The recent list\<close>

lemma next_recent_Cons:
  "next_recent n recent0 = n # take 5 (filter (\<lambda>c. toLowerCase c \<noteq> toLowerCase n) recent0)"
  by (simp add: next_recent_def numeral_eq_Suc)

lemma next_recent_prefix:
  assumes "recent0 = take 6 (rev names) @ remaining"
    and "\<forall>m \<in> set names. toLowerCase m \<noteq> toLowerCase n"
  shows "\<exists>remaining'. next_recent n recent0 = take 6 (rev (names @ [n])) @ remaining'"
proof -
  let ?P = "\<lambda>c. toLowerCase c \<noteq> toLowerCase n"
  have keep: "filter ?P (take 6 (rev names)) = take 6 (rev names)"
    using assms(2) by (auto simp: filter_id_conv dest: in_set_takeD)
  have "next_recent n recent0 = n # take 5 (take 6 (rev names) @ filter ?P remaining)"
    by (simp add: next_recent_Cons assms(1) keep)
  also have "\<dots> = (n # take 5 (rev names)) @ take (5 - length (take 6 (rev names))) (filter ?P remaining)"
    by (simp add: min_def)
  also have "n # take 5 (rev names) = take 6 (rev (names @ [n]))"
    by (simp add: numeral_eq_Suc)
  finally show ?thesis by blast
qed

lemma foldl_next_recent_prefix:
  assumes "distinct (map toLowerCase names)"
  shows "\<exists>remaining. foldl (\<lambda>r n. next_recent n r) recent0 names = take 6 (rev names) @ remaining"
  using assms
proof (induction names rule: rev_induct)
  case Nil
  then show ?case by simp
next
  case (snoc n names)
  then obtain remaining where r: "foldl (\<lambda>r n. next_recent n r) recent0 names = take 6 (rev names) @ remaining"
    by auto
  from snoc.prems have "\<forall>m \<in> set names. toLowerCase m \<noteq> toLowerCase n"
    by (force simp: image_iff)
  from next_recent_prefix[OF r this] show ?case by simp
qed

lemma length_next_recent: "length (next_recent n recent0) \<le> 6"
  by (simp add: next_recent_def)

lemma foldl_next_recent_seven:
  assumes "distinct (map toLowerCase names)" and "length names = 7"
  shows "foldl (\<lambda>r n. next_recent n r) recent0 names = rev (tl names)"
proof -
  from assms(2) obtain ns n where names: "names = ns @ [n]"
    by (cases names rule: rev_cases) auto
  from foldl_next_recent_prefix[OF assms(1)] obtain remaining where
    r: "foldl (\<lambda>r n. next_recent n r) recent0 names = take 6 (rev names) @ remaining"
    by blast
  have "length (foldl (\<lambda>r n. next_recent n r) recent0 names) \<le> 6"
    by (simp add: names length_next_recent)
  with r assms(2) have "remaining = []" by simp
  with r have "foldl (\<lambda>r n. next_recent n r) recent0 names = take 6 (rev names)" by simp
  also have "\<dots> = rev (drop 1 names)"
    using assms(2) by (simp add: take_rev)
  finally show ?thesis by (simp add: drop_Suc)
qed

text \<open>
  Claim C6. After a search in which the geocoding request, both weather requests and the
  summary succeed, the recent list is the name of the location found, in its own casing,
  followed by the entries of the old list that differ from it when both are put in lower
  case, cut to six entries; the same list is written to the local storage. Seven names that
  differ in lower case, saved one after the other, leave the last six, latest first.
\<close>

theorem runSearch_saves_recent:
  assumes "trim cityName \<noteq> []" and "\<not> no_key w"
    and "geo_fetch w cityName = Response True (Inr (g # gs))"
    and "weather_fetch w (lat g) (lon g) (units s) = Response True (Inr wn)"
    and "forecast_fetch w (lat g) (lon g) (units s) = Response True (Inr f)"
    and "pickDaily (list f) = Inr daily"
  shows "recent (runSearch w cityName s) =
           take 6 (name g # filter (\<lambda>c. toLowerCase c \<noteq> toLowerCase (name g)) (recent s)) \<and>
         hd (recent (runSearch w cityName s)) = name g \<and>
         length (recent (runSearch w cityName s)) \<le> 6 \<and>
         (\<forall>c \<in> set (tl (recent (runSearch w cityName s))). toLowerCase c \<noteq> toLowerCase (name g)) \<and>
         localStorage (runSearch w cityName s) RECENT_KEY =
           Some (JSON_stringify (recent (runSearch w cityName s))) \<and>
         (\<forall>names recent0. distinct (map toLowerCase names) \<and> length names = 7 \<longrightarrow>
            foldl (\<lambda>r n. next_recent n r) recent0 names = rev (tl names))"
proof -
  have r: "recent (runSearch w cityName s) = next_recent (name g) (recent s)"
    using assms by (simp add: search_defs)
  have st: "localStorage (runSearch w cityName s) RECENT_KEY =
           Some (JSON_stringify (next_recent (name g) (recent s)))"
    using assms by (simp add: search_defs)
  have 1: "recent (runSearch w cityName s) =
           take 6 (name g # filter (\<lambda>c. toLowerCase c \<noteq> toLowerCase (name g)) (recent s))"
    unfolding r by (simp add: next_recent_def)
  have 2: "hd (recent (runSearch w cityName s)) = name g"
    unfolding r by (simp add: next_recent_Cons)
  have 3: "length (recent (runSearch w cityName s)) \<le> 6"
    unfolding r by (rule length_next_recent)
  have 4: "\<forall>c \<in> set (tl (recent (runSearch w cityName s))). toLowerCase c \<noteq> toLowerCase (name g)"
    unfolding r by (auto simp: next_recent_Cons dest: in_set_takeD)
  have 5: "localStorage (runSearch w cityName s) RECENT_KEY =
           Some (JSON_stringify (recent (runSearch w cityName s)))"
    unfolding r by (rule st)
  have 6: "\<forall>names recent0. distinct (map toLowerCase names) \<and> length names = 7 \<longrightarrow>
            foldl (\<lambda>r n. next_recent n r) recent0 names = rev (tl names)"
    using foldl_next_recent_seven by blast
  from 1 2 3 4 5 6 show ?thesis by (intro conjI)
qed

theorem runSearch_saves_recent_witness:
  "trim ''london'' \<noteq> [] \<and> \<not> no_key all_up \<and>
   geo_fetch all_up ''london'' = Response True (Inr [london]) \<and>
   recent (runSearch all_up ''london'' (fresh\<lparr>recent := [''Paris'', ''LONDON'', ''Rome'']\<rparr>)) =
     [''London'', ''Paris'', ''Rome''] \<and>
   distinct (map toLowerCase seven_cities) \<and> length seven_cities = 7 \<and>
   foldl (\<lambda>r n. next_recent n r) [''Bern''] seven_cities =
     [''Delhi'', ''Tokyo'', ''Cairo'', ''Lima'', ''Rome'', ''Paris'']"
proof -
  let ?s = "fresh\<lparr>recent := [''Paris'', ''LONDON'', ''Rome'']\<rparr>"
  have a: "trim ''london'' \<noteq> []" by (simp add: trim_def is_js_space_def)
  have b: "\<not> no_key all_up" by (simp add: all_up_def no_key_def)
  have c: "geo_fetch all_up ''london'' = Response True (Inr (london # []))"
    by (simp add: all_up_def)
  have d: "weather_fetch all_up (lat london) (lon london) (units ?s) = Response True (Inr ())"
    by (simp add: all_up_def)
  have e: "forecast_fetch all_up (lat london) (lon london) (units ?s) = Response True (Inr \<lparr>list = two_days\<rparr>)"
    by (simp add: all_up_def)
  have f: "pickDaily (list \<lparr>list = two_days\<rparr>) =
      Inr [sample ''2024-04-30 21:00:00'', sample ''2024-05-01 03:00:00'']"
    by (simp add: two_days_def feed_defs)
  note facts = runSearch_saves_recent[OF a b c d e f]
  have l: "toLowerCase ''Paris'' \<noteq> toLowerCase ''London''" "toLowerCase ''LONDON'' = toLowerCase ''London''"
    "toLowerCase ''Rome'' \<noteq> toLowerCase ''London''"
    by code_simp+
  have r: "recent (runSearch all_up ''london'' ?s) = [''London'', ''Paris'', ''Rome'']"
    using facts l by (simp add: fresh_def london_def)
  have g: "distinct (map toLowerCase seven_cities)" "length seven_cities = 7"
    by code_simp+
  from facts g have "foldl (\<lambda>r n. next_recent n r) [''Bern''] seven_cities = rev (tl seven_cities)"
    by blast
  then have h: "foldl (\<lambda>r n. next_recent n r) [''Bern''] seven_cities =
     [''Delhi'', ''Tokyo'', ''Cairo'', ''Lima'', ''Rome'', ''Paris'']"
    by (simp add: seven_cities_def)
  from a b c r g h show ?thesis by simp
qed

section \<open>Properties of the initial recent list\<close>

lemmas json_defs = loadRecent_def JSON_parse_def is_json_space_def is_digit_def digit_def
  lex_number_def lex_int_def lex_digits_def lex_frac_def lex_exp_def hex_digit_def escape_unit_def
  JSON_stringify_def quote_def quote_unit_def RECENT_KEY_def

subsection \<open>Reading back what was written\<close>

text \<open>
  \<^verbatim>\<open>JSON.parse\<close> reads the text that \<^verbatim>\<open>JSON.stringify\<close> writes for a list of
  strings back as that list: the string lexer undoes the escapes, the tokens are the
  brackets, the strings and the commas between them, and the parser collects the strings.
\<close>

lemma hex_digit_hex_char: "k < 16 \<Longrightarrow> hex_digit (hex_char k) = Some k"
proof -
  assume "k < 16"
  then have "k = 0 \<or> k = 1 \<or> k = 2 \<or> k = 3 \<or> k = 4 \<or> k = 5 \<or> k = 6 \<or> k = 7 \<or> k = 8 \<or> k = 9 \<or>
      k = 10 \<or> k = 11 \<or> k = 12 \<or> k = 13 \<or> k = 14 \<or> k = 15"
    by arith
  then show ?thesis
    by (elim disjE) (simp_all add: hex_char_def hex_digit_def)
qed

lemma of_char_eq_numeral_iff:
  "((of_char c :: nat) = 34) = (c = CHR 0x22)" "((of_char c :: nat) = 92) = (c = CHR 0x5C)"
proof -
  have "(of_char (CHR 0x22) :: nat) = 34" "(of_char (CHR 0x5C) :: nat) = 92" by simp_all
  then show "((of_char c :: nat) = 34) = (c = CHR 0x22)" "((of_char c :: nat) = 92) = (c = CHR 0x5C)"
    by (metis of_char_eq_iff)+
qed

lemma lex_string_quote_unit:
  "lex_string (quote_unit c @ r) =
     (case lex_string r of None \<Rightarrow> None | Some (us, r') \<Rightarrow> Some (of_char c # us, r'))"
proof -
  define n where "n = (of_char c :: nat)"
  consider "n = 34" | "n = 92" | "n = 8" | "n = 12" | "n = 10" | "n = 13" | "n = 9"
    | "n < 32" "n \<notin> {8, 9, 10, 12, 13}" | "32 \<le> n" "n \<noteq> 34" "n \<noteq> 92"
    by (cases "n < 32") auto
  then show ?thesis
  proof cases
    case 1
    then show ?thesis unfolding n_def
      by (simp add: quote_unit_def escape_unit_def split: option.splits)
  next
    case 2
    then show ?thesis unfolding n_def
      by (simp add: quote_unit_def escape_unit_def split: option.splits)
  next
    case 3
    then show ?thesis unfolding n_def
      by (simp add: quote_unit_def escape_unit_def split: option.splits)
  next
    case 4
    then show ?thesis unfolding n_def
      by (simp add: quote_unit_def escape_unit_def split: option.splits)
  next
    case 5
    then show ?thesis unfolding n_def
      by (simp add: quote_unit_def escape_unit_def split: option.splits)
  next
    case 6
    then show ?thesis unfolding n_def
      by (simp add: quote_unit_def escape_unit_def split: option.splits)
  next
    case 7
    then show ?thesis unfolding n_def
      by (simp add: quote_unit_def escape_unit_def split: option.splits)
  next
    case 8
    then have d: "n div 16 < 16" "n mod 16 < 16" "(n div 16) mod 16 = n div 16" by auto
    have h: "hex_char n = hex_char (n mod 16)" by (simp add: hex_char_def)
    have z: "hex_digit CHR ''0'' = Some 0" by (simp add: hex_digit_def)
    have q: "quote_unit c = [CHR 0x5C, CHR ''u'', CHR ''0'', CHR ''0'', hex_char (n div 16), hex_char (n mod 16)]"
      using 8 h unfolding n_def by (auto simp: quote_unit_def Let_def)
    show ?thesis unfolding q
      by (simp add: z hex_digit_hex_char d n_def[symmetric] split: option.splits)
  next
    case 9
    then have "c \<noteq> CHR 0x22" "c \<noteq> CHR 0x5C"
      unfolding n_def by (simp_all add: of_char_eq_numeral_iff)
    moreover have "quote_unit c = [c]"
      using 9 unfolding n_def by (auto simp: quote_unit_def Let_def)
    ultimately show ?thesis using 9 unfolding n_def
      by (simp split: option.splits)
  qed
qed

lemma lex_string_quoted:
  "lex_string (concat (map quote_unit s) @ CHR 0x22 # r) = Some (map of_char s, r)"
  by (induction s) (simp_all add: lex_string_quote_unit)


lemma tokenize_quote:
  "tokenize (quote s @ r) = map_option (Cons (TString (map of_char s))) (tokenize r)"
proof -
  have "tokenize (quote s @ r) = tokenize (CHR 0x22 # concat (map quote_unit s) @ CHR 0x22 # r)"
    by (simp add: quote_def)
  also have "\<dots> = map_option (Cons (TString (map of_char s))) (tokenize r)"
    by (simp add: is_json_space_def lex_string_quoted)
  finally show ?thesis .
qed

lemma tokenize_join:
  "tokenize (join (map quote xs) @ r) = map_option (\<lambda>ts. string_tokens xs @ ts) (tokenize r)"
proof (induction xs rule: string_tokens.induct)
  case 1
  then show ?case by (simp add: option.map_ident)
next
  case (2 x)
  then show ?case by (simp add: tokenize_quote option.map_comp comp_def)
next
  case (3 x y ys)
  have "tokenize (join (map quote (x # y # ys)) @ r) =
      tokenize (quote x @ CHR '','' # join (map quote (y # ys)) @ r)"
    by simp
  also have "\<dots> = map_option (Cons (TString (map of_char x)))
      (tokenize (CHR '','' # join (map quote (y # ys)) @ r))"
    by (rule tokenize_quote)
  also have "tokenize (CHR '','' # join (map quote (y # ys)) @ r) =
      map_option (Cons TComma) (tokenize (join (map quote (y # ys)) @ r))"
    by (simp add: is_json_space_def)
  also have "tokenize (join (map quote (y # ys)) @ r) =
      map_option (\<lambda>ts. string_tokens (y # ys) @ ts) (tokenize r)"
    by (rule 3)
  finally show ?case by (simp add: option.map_comp comp_def)
qed

lemma tokenize_stringify:
  "tokenize (JSON_stringify xs) = Some (TLBracket # string_tokens xs @ [TRBracket])"
proof -
  have "tokenize (JSON_stringify xs) = map_option (Cons TLBracket) (tokenize (join (map quote xs) @ '']''))"
    by (simp add: JSON_stringify_def is_json_space_def)
  also have "tokenize (join (map quote xs) @ '']'') =
      map_option (\<lambda>ts. string_tokens xs @ ts) (tokenize '']'')"
    by (rule tokenize_join)
  also have "tokenize '']'' = Some [TRBracket]"
    by (simp add: is_json_space_def)
  finally show ?thesis by simp
qed

lemma parse_elements:
  assumes "m = Value \<or> m = ValueOrEnd"
  shows "parse_tokens (Expect m [InArray acc]) (string_tokens (x # xs) @ [TRBracket]) =
     Some (Done (JArray (rev acc @ map (\<lambda>s. JString (map of_char s)) (x # xs))))"
  using assms
proof (induction xs arbitrary: acc x m)
  case Nil
  then show ?case by auto
next
  case (Cons y ys)
  have "parse_tokens (Expect m [InArray acc]) (string_tokens (x # y # ys) @ [TRBracket]) =
      parse_tokens (Expect Value [InArray (JString (map of_char x) # acc)])
        (string_tokens (y # ys) @ [TRBracket])"
    using Cons.prems by auto
  also have "\<dots> = Some (Done (JArray (rev (JString (map of_char x) # acc) @
      map (\<lambda>s. JString (map of_char s)) (y # ys))))"
    by (rule Cons.IH) simp
  finally show ?case by simp
qed

lemma JSON_parse_stringify:
  "JSON_parse (JSON_stringify xs) = Some (JArray (map (\<lambda>s. JString (map of_char s)) xs))"
proof (cases xs)
  case Nil
  then show ?thesis by (simp add: JSON_parse_def tokenize_stringify)
next
  case (Cons x xs')
  have "parse_tokens (Expect Value []) (TLBracket # string_tokens (x # xs') @ [TRBracket]) =
      parse_tokens (Expect ValueOrEnd [InArray []]) (string_tokens (x # xs') @ [TRBracket])"
    by simp
  also have "\<dots> = Some (Done (JArray (rev [] @ map (\<lambda>s. JString (map of_char s)) (x # xs'))))"
    by (rule parse_elements) simp
  finally show ?thesis
    by (simp add: JSON_parse_def tokenize_stringify Cons)
qed

lemma loadRecent_saved:
  "storage RECENT_KEY = Some (JSON_stringify xs) \<Longrightarrow>
     loadRecent storage = JArray (map (\<lambda>s. JString (map of_char s)) xs)"
proof -
  assume st: "storage RECENT_KEY = Some (JSON_stringify xs)"
  have "JSON_stringify xs \<noteq> []" by (simp add: JSON_stringify_def)
  with st show ?thesis by (simp add: loadRecent_def JSON_parse_stringify)
qed

subsection \<open>The initializer\<close>

text \<open>
  What the initializer does right: nothing stored, the empty string and a text that
  \<^verbatim>\<open>JSON.parse\<close> rejects all give the empty list, and the text that \<^verbatim>\<open>saveRecent\<close>
  writes for a list of strings gives that list back.
\<close>

lemma loadRecent_absent:
  "storage RECENT_KEY = None \<or> storage RECENT_KEY = Some [] \<Longrightarrow> loadRecent storage = JArray []"
proof -
  have "JSON_parse ''[]'' = Some (JArray [])"
    by (simp add: JSON_parse_def is_json_space_def)
  moreover assume "storage RECENT_KEY = None \<or> storage RECENT_KEY = Some []"
  ultimately show ?thesis by (auto simp: loadRecent_def)
qed

lemma loadRecent_rejected:
  "storage RECENT_KEY = Some saved \<Longrightarrow> JSON_parse saved = None \<Longrightarrow> loadRecent storage = JArray []"
proof -
  have "JSON_parse ''[]'' = Some (JArray [])"
    by (simp add: JSON_parse_def is_json_space_def)
  moreover assume "storage RECENT_KEY = Some saved" "JSON_parse saved = None"
  ultimately show ?thesis by (auto simp: loadRecent_def)
qed

lemma loadRecent_saved_is_list:
  "storage RECENT_KEY = Some (JSON_stringify names) \<Longrightarrow> string_array (loadRecent storage)"
  by (simp add: loadRecent_saved string_array_def list_all_iff)

text \<open>
  Claim C9. The initial recent list is to be a list of strings for every stored value.
  The initializer at a stored text that is JSON but no array: with \<^verbatim>\<open>null\<close> stored it
  returns \<^verbatim>\<open>null\<close>, with \<^verbatim>\<open>42\<close> a number, with \<^verbatim>\<open>{}\<close> an object; none of them
  is a list of strings, and none is replaced by the empty list.
\<close>

theorem loadRecent_not_a_list:
  "loadRecent [RECENT_KEY \<mapsto> ''null''] = JNull \<and>
   \<not> string_array (loadRecent [RECENT_KEY \<mapsto> ''null'']) \<and>
   loadRecent [RECENT_KEY \<mapsto> ''42''] = JNumber \<and>
   \<not> string_array (loadRecent [RECENT_KEY \<mapsto> ''42'']) \<and>
   loadRecent [RECENT_KEY \<mapsto> ''{}''] = JObject \<and>
   \<not> string_array (loadRecent [RECENT_KEY \<mapsto> ''{}''])"
  by (simp add: json_defs string_array_def)

end
